theory Spec2Isabelle
  imports Main "HOL-Library.Log_Nat" "HOL-Library.Multiset" "HOL-Library.List_Lexorder"
begin

section \<open>Numbers\<close>

text \<open>
  A JavaScript \<^verbatim>\<open>number\<close> is an IEEE-754 binary64 value. The heartbeat code only ever
  sees finite numbers (the ingestion in \<^verbatim>\<open>GET\<close> stores a value only when
  \<^verbatim>\<open>Number.isFinite\<close> holds), so a number is modelled by its exact rational value and
  every arithmetic operation rounds its exact result to the nearest value with a 53-bit
  significand, ties to even. The exponent range is not bounded: where the code overflows
  to \<^verbatim>\<open>Infinity\<close> (beyond about \<open>1.8e308\<close>) or rounds into the subnormal range
  (below about \<open>2.2e-308\<close>), the model keeps a finite value with 53 bits. What the
  theorems below use of the arithmetic is the same in binary64: the sign of a difference,
  \<open>v / v = 1\<close>, exact zeros, and sums, products and quotients in the normal range.
\<close>

type_synonym number = rat

definition round_half_even :: "rat \<Rightarrow> int" where
  "round_half_even x =
     (let f = \<lfloor>x\<rfloor>; r = x - of_int f
      in if r < 1 / 2 then f
         else if 1 / 2 < r then f + 1
         else if even f then f else f + 1)"

text \<open>\<open>ilog2 a\<close> is the binary exponent of a positive rational: \<open>2 powi ilog2 a \<le> a < 2 powi (ilog2 a + 1)\<close>.\<close>

definition ilog2 :: "rat \<Rightarrow> int" where
  "ilog2 a =
     (let (n, d) = quotient_of a; k = bitlen n - bitlen d
      in if 2 powi k \<le> a then k else k - 1)"

definition fl :: "rat \<Rightarrow> number" where
  "fl q =
     (if q = 0 then 0
      else let a = \<bar>q\<bar>; e = ilog2 a - 52
           in sgn q * (of_int (round_half_even (a / 2 powi e)) * 2 powi e))"

definition fadd :: "number \<Rightarrow> number \<Rightarrow> number" where
  "fadd a b = fl (a + b)"

definition fsub :: "number \<Rightarrow> number \<Rightarrow> number" where
  "fsub a b = fl (a - b)"

definition fmul :: "number \<Rightarrow> number \<Rightarrow> number" where
  "fmul a b = fl (a * b)"

text \<open>Every divisor in the heartbeat code has passed through \<^verbatim>\<open>|| 1\<close>, so division by zero
  (which is \<^verbatim>\<open>Infinity\<close> or \<^verbatim>\<open>NaN\<close> in JavaScript) is never reached.\<close>

definition fdiv :: "number \<Rightarrow> number \<Rightarrow> number" where
  "fdiv a b = fl (a / b)"

text \<open>\<^verbatim>\<open>x || 1\<close> on a number that may be \<^verbatim>\<open>undefined\<close>: zero and \<^verbatim>\<open>undefined\<close> are falsy.\<close>

definition or1 :: "number option \<Rightarrow> number" where
  "or1 x = (case x of None \<Rightarrow> 1 | Some v \<Rightarrow> if v = 0 then 1 else v)"

section \<open>Arrays and strings\<close>

text \<open>
  \<^verbatim>\<open>Array.prototype.sort(compareFn)\<close>: a stable sort; \<open>cmp a b \<le> 0\<close> keeps \<open>a\<close> before
  \<open>b\<close>. Every stable sort returns the same array for a consistent comparator; the model
  is insertion sort.
\<close>

fun insort_by :: "('a \<Rightarrow> 'a \<Rightarrow> number) \<Rightarrow> 'a \<Rightarrow> 'a list \<Rightarrow> 'a list" where
  "insort_by cmp x [] = [x]"
| "insort_by cmp x (y # ys) =
     (if cmp x y \<le> 0 then x # y # ys else y # insort_by cmp x ys)"

definition sort_by :: "('a \<Rightarrow> 'a \<Rightarrow> number) \<Rightarrow> 'a list \<Rightarrow> 'a list" where
  "sort_by cmp xs = foldr (insort_by cmp) xs []"

text \<open>\<^verbatim>\<open>xs[i]\<close>: \<^verbatim>\<open>undefined\<close> out of range.\<close>

definition at_index :: "'a list \<Rightarrow> nat \<Rightarrow> 'a option" where
  "at_index xs i = (if i < length xs then Some (xs ! i) else None)"

text \<open>\<^verbatim>\<open>s.replace(" ", "T")\<close>: a string pattern replaces its first occurrence only.\<close>

fun replace_space :: "string \<Rightarrow> string" where
  "replace_space [] = []"
| "replace_space (c # cs) =
     (if c = CHR '' '' then CHR ''T'' # cs else c # replace_space cs)"

section \<open>Data model of \<^verbatim>\<open>src/app/api/heartbeat/route.ts\<close>\<close>

datatype metricKey =
  orders
| shipping_labels
| total_packers
| total_pickers
| total_warehouses_packers
| total_warehouses_pickers
| active_countries

text \<open>
  A row is its date and its metric properties by key. In a \<^verbatim>\<open>MetricsRow\<close> each of the
  seven properties is optional (\<open>None\<close> is an absent property); the rows of
  \<^verbatim>\<open>safeRows\<close> hold a number under every key.
\<close>

record 'v Row =
  date :: string
  field :: "metricKey \<Rightarrow> 'v"

type_synonym MetricsRow = "number option Row"
type_synonym SafeRow = "number Row"

record HeartbeatPoint =
  timestamp :: string
  intensity :: number
  metrics :: "metricKey \<Rightarrow> number"

section \<open>\<^verbatim>\<open>percentile75\<close> and \<^verbatim>\<open>computeHeartbeat\<close>\<close>

text \<open>
  The index \<^verbatim>\<open>Math.floor(0.75 * (sorted.length - 1))\<close> is computed exactly: \<open>0.75\<close> is a
  binary fraction and an array length is below \<open>2 ^ 32\<close>, so the product is not rounded.
\<close>

definition percentile75 :: "number list \<Rightarrow> number" where
  "percentile75 values =
     (if values = [] then 1
      else let sorted = sort_by (\<lambda>a b. fsub a b) values;
               idx = nat \<lfloor>(3 / 4 :: rat) * (of_nat (length sorted) - 1)\<rfloor>
           in or1 (at_index sorted idx))"

definition metricsKeys :: "metricKey list" where
  "metricsKeys =
     [orders, shipping_labels, total_packers, total_pickers,
      total_warehouses_packers, total_warehouses_pickers, active_countries]"

text \<open>The decimal literals \<^verbatim>\<open>0.7\<close> and \<^verbatim>\<open>0.4\<close> denote the nearest binary64 values.\<close>

fun weights :: "metricKey \<Rightarrow> number" where
  "weights orders = 1"
| "weights shipping_labels = 1"
| "weights total_packers = fl (7 / 10)"
| "weights total_pickers = fl (7 / 10)"
| "weights total_warehouses_packers = fl (4 / 10)"
| "weights total_warehouses_pickers = fl (4 / 10)"
| "weights active_countries = 1 / 2"

text \<open>\<^verbatim>\<open>Object.values(weights).reduce((a, b) => a + b, 0)\<close>; the properties of \<^verbatim>\<open>weights\<close>
  are written in the order of \<^verbatim>\<open>metricsKeys\<close>.\<close>

definition totalWeight :: number where
  "totalWeight = foldl (\<lambda>a b. fadd a b) 0 (map weights metricsKeys)"

definition safeRow :: "MetricsRow \<Rightarrow> SafeRow" where
  "safeRow r =
     \<lparr>date = date r,
      field = (\<lambda>key. case field r key of None \<Rightarrow> 0 | Some v \<Rightarrow> v)\<rparr>"

text \<open>The loop filling \<^verbatim>\<open>q75\<close>, one key of \<^verbatim>\<open>metricsKeys\<close> after the other.\<close>

definition q75_of :: "SafeRow list \<Rightarrow> (metricKey \<rightharpoonup> number)" where
  "q75_of safeRows =
     foldl (\<lambda>q75 key.
              let arr = map (\<lambda>r. field r key) safeRows
              in q75(key \<mapsto> or1 (Some (percentile75 arr))))
       Map.empty metricsKeys"

text \<open>The body of the final \<^verbatim>\<open>map\<close>; \<^verbatim>\<open>(r[key] as number) ?? 0\<close> reads a property that
  \<^verbatim>\<open>safeRows\<close> always holds.\<close>

definition score_of :: "(metricKey \<rightharpoonup> number) \<Rightarrow> SafeRow \<Rightarrow> number" where
  "score_of q75 r =
     foldl (\<lambda>score key.
              let v = field r key;
                  denom = or1 (q75 key);
                  norm = fdiv v denom
              in fadd score (fmul (weights key) norm))
       0 metricsKeys"

definition point_of :: "(metricKey \<rightharpoonup> number) \<Rightarrow> SafeRow \<Rightarrow> HeartbeatPoint" where
  "point_of q75 r =
     \<lparr>timestamp = replace_space (date r) @ ''Z'',
      intensity = fdiv (fmul 100 (score_of q75 r)) totalWeight,
      metrics = field r\<rparr>"

text \<open>
  \<^verbatim>\<open>String.prototype.localeCompare\<close> belongs to the platform, not to the repository: it
  is the parameter \<open>localeCompare\<close>, a comparator returning a negative number, zero or a
  positive number.
\<close>

text \<open>\<^verbatim>\<open>safeRows.sort((a, b) => a.date.localeCompare(b.date))\<close>\<close>

definition sortedRows :: "(string \<Rightarrow> string \<Rightarrow> number) \<Rightarrow> SafeRow list \<Rightarrow> SafeRow list" where
  "sortedRows localeCompare safeRows =
     sort_by (\<lambda>a b. localeCompare (date a) (date b)) safeRows"

definition computeHeartbeat ::
  "(string \<Rightarrow> string \<Rightarrow> number) \<Rightarrow> MetricsRow list \<Rightarrow> HeartbeatPoint list" where
  "computeHeartbeat localeCompare rows =
     (let safeRows = map safeRow rows;
          q75 = q75_of safeRows
      in map (point_of q75) (sortedRows localeCompare safeRows))"

text \<open>
  What the specification says of the timestamp, in its own words: the date string with
  its first space character replaced by \<open>T\<close>, and a trailing \<open>Z\<close> appended.
\<close>

definition spec_timestamp :: "string \<Rightarrow> string" where
  "spec_timestamp d =
     (if CHR '' '' \<in> set d
      then takeWhile (\<lambda>c. c \<noteq> CHR '' '') d @ [CHR ''T''] @ tl (dropWhile (\<lambda>c. c \<noteq> CHR '' '') d)
      else d) @ ''Z''"

text \<open>
  What the specification says of an absent field, in its own words: the record counts as
  the record that holds 0 for it.
\<close>

definition zero_filled :: "MetricsRow \<Rightarrow> MetricsRow" where
  "zero_filled r = r\<lparr>field := (\<lambda>key. case field r key of None \<Rightarrow> Some 0 | Some v \<Rightarrow> Some v)\<rparr>"

section \<open>\<^verbatim>\<open>computeHeartbeat\<close> on an explicit store\<close>

text \<open>
  The same function with its arrays and objects in a store, to follow what it allocates
  and what it writes. An address is an index into the store; allocation appends a cell.
  The argument \<open>rows\<close> is the address of the input array, whose elements are addresses of
  row objects. The arrays of numbers that the call builds for the percentiles, and the
  points it returns, are reachable from nothing that existed before: they are values.
\<close>

datatype cell =
  RowObj MetricsRow
| SafeObj SafeRow
| ArrObj "nat list"

type_synonym store = "cell list"

definition alloc :: "store \<Rightarrow> cell \<Rightarrow> store \<times> nat" where
  "alloc h c = (h @ [c], length h)"

definition row_at :: "store \<Rightarrow> nat \<Rightarrow> MetricsRow option" where
  "row_at h p = (case at_index h p of Some (RowObj r) \<Rightarrow> Some r | _ \<Rightarrow> None)"

definition safe_at :: "store \<Rightarrow> nat \<Rightarrow> SafeRow option" where
  "safe_at h p = (case at_index h p of Some (SafeObj r) \<Rightarrow> Some r | _ \<Rightarrow> None)"

definition arr_at :: "store \<Rightarrow> nat \<Rightarrow> nat list option" where
  "arr_at h p = (case at_index h p of Some (ArrObj ps) \<Rightarrow> Some ps | _ \<Rightarrow> None)"

text \<open>The rows an array of \<^verbatim>\<open>MetricsRow\<close> holds, and those an array of safe rows holds.\<close>

definition rows_at :: "store \<Rightarrow> nat \<Rightarrow> MetricsRow list option" where
  "rows_at h a = (case arr_at h a of None \<Rightarrow> None | Some ps \<Rightarrow> those (map (row_at h) ps))"

definition safeRows_at :: "store \<Rightarrow> nat \<Rightarrow> SafeRow list option" where
  "safeRows_at h a = (case arr_at h a of None \<Rightarrow> None | Some ps \<Rightarrow> those (map (safe_at h) ps))"

text \<open>\<^verbatim>\<open>rows.map((r) => ({...r, orders: r.orders ?? 0, ...}))\<close>: one new object for each
  element, then a new array of them.\<close>

fun copy_rows :: "store \<Rightarrow> nat list \<Rightarrow> (store \<times> nat list) option" where
  "copy_rows h [] = Some (h, [])"
| "copy_rows h (p # ps) =
     (case row_at h p of
        None \<Rightarrow> None
      | Some r \<Rightarrow>
          (let (h1, p') = alloc h (SafeObj (safeRow r))
           in case copy_rows h1 ps of
                None \<Rightarrow> None
              | Some (h2, ps') \<Rightarrow> Some (h2, p' # ps')))"

definition map_safeRow :: "store \<Rightarrow> nat \<Rightarrow> (store \<times> nat) option" where
  "map_safeRow h rows =
     (case arr_at h rows of
        None \<Rightarrow> None
      | Some ps \<Rightarrow>
          (case copy_rows h ps of
             None \<Rightarrow> None
           | Some (h1, ps') \<Rightarrow> Some (alloc h1 (ArrObj ps'))))"

text \<open>\<^verbatim>\<open>safeRows.sort((a, b) => a.date.localeCompare(b.date))\<close> sorts the array in place:
  the references are reordered by the dates of the objects they point to, and the array
  cell is overwritten.\<close>

definition sort_in_place ::
  "(string \<Rightarrow> string \<Rightarrow> number) \<Rightarrow> store \<Rightarrow> nat \<Rightarrow> store option" where
  "sort_in_place localeCompare h a =
     (case arr_at h a of
        None \<Rightarrow> None
      | Some ps \<Rightarrow>
          (case those (map (safe_at h) ps) of
             None \<Rightarrow> None
           | Some rs \<Rightarrow>
               Some (h[a := ArrObj (map fst
                 (sort_by (\<lambda>x y. localeCompare (date (snd x)) (date (snd y))) (zip ps rs)))])))"

definition computeHeartbeat_st ::
  "(string \<Rightarrow> string \<Rightarrow> number) \<Rightarrow> store \<Rightarrow> nat \<Rightarrow> (store \<times> HeartbeatPoint list) option" where
  "computeHeartbeat_st localeCompare h rows =
     (case map_safeRow h rows of
        None \<Rightarrow> None
      | Some (h1, safeRows) \<Rightarrow>
          (case safeRows_at h1 safeRows of
             None \<Rightarrow> None
           | Some rs \<Rightarrow>
               (let q75 = q75_of rs
                in case sort_in_place localeCompare h1 safeRows of
                     None \<Rightarrow> None
                   | Some h2 \<Rightarrow>
                       (case safeRows_at h2 safeRows of
                          None \<Rightarrow> None
                        | Some rs' \<Rightarrow> Some (h2, map (point_of q75) rs')))))"

section \<open>The ingestion join of \<^verbatim>\<open>GET\<close>\<close>

text \<open>
  The five parsed CSV tables are the inputs; fetching and parsing them is outside the
  model. A \<^verbatim>\<open>RawRow\<close> maps column names to strings. The \<^verbatim>\<open>Map<string, MetricsRow>\<close>
  is an association list in insertion order, which is the order of \<^verbatim>\<open>map.values()\<close>.
  The platform functions are parameters: \<open>trim\<close> is \<^verbatim>\<open>String.prototype.trim\<close>, and
  \<open>toNumber x\<close> is \<^verbatim>\<open>Number(x)\<close> when \<^verbatim>\<open>Number.isFinite\<close> accepts it, \<open>None\<close> otherwise.
\<close>

type_synonym RawRow = "string \<rightharpoonup> string"
type_synonym RowMap = "(string \<times> MetricsRow) list"

definition ensureRow :: "RowMap \<Rightarrow> string \<Rightarrow> RowMap \<times> MetricsRow" where
  "ensureRow m dateStr =
     (case map_of m dateStr of
        Some row \<Rightarrow> (m, row)
      | None \<Rightarrow>
          (let row = \<lparr>date = dateStr, field = (\<lambda>key. None)\<rparr>
           in (m @ [(dateStr, row)], row)))"

text \<open>\<^verbatim>\<open>target.key = v\<close> where \<^verbatim>\<open>target\<close> is the object that \<^verbatim>\<open>ensureRow(map, dateStr)\<close>
  returned: the object stored in the map under \<open>dateStr\<close> changes.\<close>

definition set_field :: "RowMap \<Rightarrow> string \<Rightarrow> metricKey \<Rightarrow> number \<Rightarrow> RowMap" where
  "set_field m dateStr key v =
     map (\<lambda>(d, r). if d = dateStr then (d, r\<lparr>field := (field r)(key := Some v)\<rparr>) else (d, r)) m"

definition set_finite :: "RowMap \<Rightarrow> string \<Rightarrow> metricKey \<Rightarrow> number option \<Rightarrow> RowMap" where
  "set_finite m dateStr key x = (case x of None \<Rightarrow> m | Some v \<Rightarrow> set_field m dateStr key v)"

text \<open>\<^verbatim>\<open>!s\<close> on a string that may be \<^verbatim>\<open>undefined\<close>.\<close>

definition blank :: "string option \<Rightarrow> bool" where
  "blank s = (case s of None \<Rightarrow> True | Some t \<Rightarrow> t = [])"

definition orders_step ::
  "(string \<Rightarrow> string) \<Rightarrow> (string option \<Rightarrow> number option) \<Rightarrow> RowMap \<Rightarrow> RawRow \<Rightarrow> RowMap" where
  "orders_step trim toNumber m row =
     (let rawDate = (case row ''date_utc'' of Some d \<Rightarrow> Some d | None \<Rightarrow> row ''date'');
          dateStr = map_option trim rawDate
      in if blank dateStr then m
         else let d = the dateStr;
                  (m1, target) = ensureRow m d
              in set_finite m1 d orders (toNumber (row ''orders'')))"

definition labels_step ::
  "(string \<Rightarrow> string) \<Rightarrow> (string option \<Rightarrow> number option) \<Rightarrow> RowMap \<Rightarrow> RawRow \<Rightarrow> RowMap" where
  "labels_step trim toNumber m row =
     (let dateStr = map_option trim (row ''date'')
      in if blank dateStr then m
         else let d = the dateStr;
                  (m1, target) = ensureRow m d
              in set_finite m1 d shipping_labels (toNumber (row ''shipping_labels'')))"

definition packers_step ::
  "(string \<Rightarrow> string) \<Rightarrow> (string option \<Rightarrow> number option) \<Rightarrow> RowMap \<Rightarrow> RawRow \<Rightarrow> RowMap" where
  "packers_step trim toNumber m row =
     (let dateStr = map_option trim (row ''date'')
      in if blank dateStr then m
         else let d = the dateStr;
                  (m1, target) = ensureRow m d;
                  m2 = set_finite m1 d total_packers (toNumber (row ''total_packers''))
              in set_finite m2 d total_warehouses_packers (toNumber (row ''total_warehouses'')))"

definition pickers_step ::
  "(string \<Rightarrow> string) \<Rightarrow> (string option \<Rightarrow> number option) \<Rightarrow> RowMap \<Rightarrow> RawRow \<Rightarrow> RowMap" where
  "pickers_step trim toNumber m row =
     (let dateStr = map_option trim (row ''date'')
      in if blank dateStr then m
         else let d = the dateStr;
                  (m1, target) = ensureRow m d;
                  m2 = set_finite m1 d total_pickers (toNumber (row ''total_pickers''))
              in set_finite m2 d total_warehouses_pickers (toNumber (row ''total_warehouses'')))"

text \<open>\<^verbatim>\<open>countriesByDate\<close>: a \<^verbatim>\<open>Map<string, Set<string>>\<close>; a set is a list without
  repetition, its \<^verbatim>\<open>size\<close> the length.\<close>

type_synonym CountryMap = "(string \<times> string list) list"

definition country_step :: "(string \<Rightarrow> string) \<Rightarrow> CountryMap \<Rightarrow> RawRow \<Rightarrow> CountryMap" where
  "country_step trim cm row =
     (let dateStr = map_option trim (row ''date'');
          country = map_option trim (row ''shipping_country'')
      in if blank dateStr \<or> blank country then cm
         else let d = the dateStr; c = the country
              in case map_of cm d of
                   None \<Rightarrow> cm @ [(d, [c])]
                 | Some s \<Rightarrow> map (\<lambda>(k, s'). if k = d then (k, List.insert c s') else (k, s')) cm)"

definition countries_step :: "RowMap \<Rightarrow> string \<times> string list \<Rightarrow> RowMap" where
  "countries_step m entry =
     (let (dateStr, s) = entry;
          (m1, target) = ensureRow m dateStr
      in set_field m1 dateStr active_countries (of_nat (length s)))"

text \<open>The rows handed to \<^verbatim>\<open>computeHeartbeat\<close>: \<^verbatim>\<open>Array.from(map.values())\<close>.\<close>

definition build_rows ::
  "(string \<Rightarrow> string) \<Rightarrow> (string option \<Rightarrow> number option) \<Rightarrow>
   RawRow list \<Rightarrow> RawRow list \<Rightarrow> RawRow list \<Rightarrow> RawRow list \<Rightarrow> RawRow list \<Rightarrow> MetricsRow list" where
  "build_rows trim toNumber ordersCsv labelsCsv byCountryCsv packersCsv pickersCsv =
     (let m1 = foldl (orders_step trim toNumber) [] ordersCsv;
          m2 = foldl (labels_step trim toNumber) m1 labelsCsv;
          m3 = foldl (packers_step trim toNumber) m2 packersCsv;
          m4 = foldl (pickers_step trim toNumber) m3 pickersCsv;
          countriesByDate = foldl (country_step trim) [] byCountryCsv;
          m5 = foldl countries_step m4 countriesByDate
      in map snd m5)"

text \<open>The body of the 200 response. No operation of the join raises, so the \<^verbatim>\<open>catch\<close>
  branch with status 500 is not reached from here.\<close>

definition GET ::
  "(string \<Rightarrow> string \<Rightarrow> number) \<Rightarrow> (string \<Rightarrow> string) \<Rightarrow> (string option \<Rightarrow> number option) \<Rightarrow>
   RawRow list \<Rightarrow> RawRow list \<Rightarrow> RawRow list \<Rightarrow> RawRow list \<Rightarrow> RawRow list \<Rightarrow> HeartbeatPoint list" where
  "GET localeCompare trim toNumber ordersCsv labelsCsv byCountryCsv packersCsv pickersCsv =
     (let rows = build_rows trim toNumber ordersCsv labelsCsv byCountryCsv packersCsv pickersCsv
      in if rows = [] then [] else computeHeartbeat localeCompare rows)"

text \<open>The invariant of the join: the keys of the map are distinct, and every row is
  stored under its own date.\<close>

definition keyed :: "RowMap \<Rightarrow> bool" where
  "keyed m \<longleftrightarrow> distinct (map fst m) \<and> map (\<lambda>e. date (snd e)) m = map fst m"

section \<open>Lexical order\<close>

text \<open>The lexical order of strings, code unit by code unit, as a comparator. Concrete runs
  use it for \<^verbatim>\<open>localeCompare\<close>: on date strings of the form \<open>YYYY-MM-DD[ HH:MM:SS]\<close> the
  two agree.\<close>

fun codeUnitCompare :: "string \<Rightarrow> string \<Rightarrow> number" where
  "codeUnitCompare [] [] = 0"
| "codeUnitCompare [] (y # ys) = - 1"
| "codeUnitCompare (x # xs) [] = 1"
| "codeUnitCompare (x # xs) (y # ys) =
     (if (of_char x :: nat) < of_char y then - 1
      else if (of_char y :: nat) < of_char x then 1
      else codeUnitCompare xs ys)"

section \<open>The collation of the runtime\<close>

text \<open>
  What \<^verbatim>\<open>localeCompare\<close> does in the default locale of the runtime (the root collation),
  on strings of digits, ASCII letters, space, hyphen and colon. Strings are compared first
  by the ranks of their characters, a proper prefix before its extensions: space, then
  hyphen, then colon, then the digits, then the letters without regard to case. Strings of
  equal ranks are then compared by case, lower case first. So \<open>a\<close> comes before \<open>B\<close>, and
  \<open>1:00\<close> before \<open>10:00\<close>. Other characters are ranked after the letters by code unit; no
  run below contains one.
\<close>

definition digit :: "char \<Rightarrow> bool" where
  "digit c \<longleftrightarrow> 48 \<le> (of_char c :: nat) \<and> (of_char c :: nat) \<le> 57"

definition primary :: "char \<Rightarrow> nat" where
  "primary c =
     (let n = of_char c
      in if c = CHR '' '' then 0
         else if c = CHR ''-'' then 1
         else if c = CHR '':'' then 2
         else if 48 \<le> n \<and> n \<le> 57 then 3 + (n - 48)
         else if 97 \<le> n \<and> n \<le> 122 then 13 + (n - 97)
         else if 65 \<le> n \<and> n \<le> 90 then 13 + (n - 65)
         else 39 + n)"

definition caseRank :: "char \<Rightarrow> nat" where
  "caseRank c = (if 65 \<le> (of_char c :: nat) \<and> (of_char c :: nat) \<le> 90 then 1 else 0)"

definition collate :: "string \<Rightarrow> string \<Rightarrow> number" where
  "collate a b =
     (if map primary a < map primary b then - 1
      else if map primary b < map primary a then 1
      else if map caseRank a < map caseRank b then - 1
      else if map caseRank b < map caseRank a then 1
      else 0)"

text \<open>Two date strings have the same layout when, position by position as far as both
  reach, they hold the same character or two digits.\<close>

fun same_layout :: "string \<Rightarrow> string \<Rightarrow> bool" where
  "same_layout [] ys = True"
| "same_layout (x # xs) [] = True"
| "same_layout (x # xs) (y # ys) = ((x = y \<or> digit x \<and> digit y) \<and> same_layout xs ys)"

section \<open>Rounding keeps the sign\<close>

lemma round_half_even_ge_floor: "\<lfloor>x\<rfloor> \<le> round_half_even x"
  by (simp add: round_half_even_def Let_def)

lemma ilog2_lower:
  assumes "0 < a"
  shows "2 powi (ilog2 a) \<le> a"
proof -
  obtain n d where nd: "quotient_of a = (n, d)" by (cases "quotient_of a")
  have dpos: "0 < d" using nd by (rule quotient_of_denom_pos)
  have a_eq: "a = of_int n / of_int d" using nd by (rule quotient_of_div)
  have npos: "0 < n"
    using assms dpos by (simp add: a_eq zero_less_divide_iff)
  let ?k = "bitlen n - bitlen d"
  have bn: "1 \<le> bitlen n" and bd: "1 \<le> bitlen d"
    using npos dpos by (auto simp: bitlen_alt_def)
  have n_lo: "(2::int) ^ nat (bitlen n - 1) \<le> n"
    using bitlen_bounds [OF npos] by simp
  have d_hi: "d < (2::int) ^ nat (bitlen d)"
    using bitlen_bounds [OF dpos] by simp
  have n_lo': "(2::rat) ^ nat (bitlen n - 1) \<le> of_int n"
    using n_lo by (metis of_int_le_iff of_int_numeral of_int_power)
  have d_hi': "of_int d < (2::rat) ^ nat (bitlen d)"
    using d_hi by (metis of_int_less_iff of_int_numeral of_int_power)
  have "(2::rat) powi ((bitlen n - 1) - bitlen d) = 2 powi (bitlen n - 1) / 2 powi (bitlen d)"
    by (rule power_int_diff) simp
  moreover have "?k - 1 = (bitlen n - 1) - bitlen d" by simp
  ultimately have "(2::rat) powi (?k - 1) = 2 powi (bitlen n - 1) / 2 powi (bitlen d)"
    by (simp only:)
  also have "\<dots> = 2 ^ nat (bitlen n - 1) / 2 ^ nat (bitlen d)"
    using bn bd by (simp add: power_int_def)
  also have "\<dots> \<le> of_int n / 2 ^ nat (bitlen d)"
    using n_lo' by (simp add: divide_right_mono)
  also have "\<dots> \<le> of_int n / of_int d"
    using d_hi' dpos npos by (simp add: frac_le)
  finally have low: "(2::rat) powi (?k - 1) \<le> a" by (simp add: a_eq)
  show ?thesis
    using low by (simp add: ilog2_def nd Let_def)
qed

lemma fl_mantissa_pos:
  assumes "0 < a"
  shows "0 < round_half_even (a / 2 powi (ilog2 a - 52))"
proof -
  let ?e = "ilog2 a - 52"
  have "(2::rat) powi 52 * 2 powi ?e = 2 powi (52 + ?e)"
    by (rule power_int_add [symmetric]) simp
  also have "52 + ?e = ilog2 a" by simp
  finally have "(2::rat) powi 52 * 2 powi ?e = 2 powi (ilog2 a)" .
  also have "\<dots> \<le> a" using assms by (rule ilog2_lower)
  finally have "(2::rat) powi 52 \<le> a / 2 powi ?e"
    by (simp add: pos_le_divide_eq)
  moreover have "(1::rat) \<le> 2 powi 52" by simp
  ultimately have "1 \<le> a / 2 powi ?e" by (rule order_trans [rotated])
  then have "1 \<le> \<lfloor>a / 2 powi ?e\<rfloor>" by (simp add: le_floor_iff)
  with round_half_even_ge_floor [of "a / 2 powi ?e"] show ?thesis by linarith
qed

lemma sgn_fl: "sgn (fl q) = sgn q"
proof (cases "q = 0")
  case True
  then show ?thesis by (simp add: fl_def)
next
  case False
  then have "0 < \<bar>q\<bar>" by simp
  then have "0 < round_half_even (\<bar>q\<bar> / 2 powi (ilog2 \<bar>q\<bar> - 52))"
    by (rule fl_mantissa_pos)
  then have "0 < (of_int (round_half_even (\<bar>q\<bar> / 2 powi (ilog2 \<bar>q\<bar> - 52))) :: rat) * 2 powi (ilog2 \<bar>q\<bar> - 52)"
    by (simp add: zero_less_mult_iff)
  then have "sgn ((of_int (round_half_even (\<bar>q\<bar> / 2 powi (ilog2 \<bar>q\<bar> - 52))) :: rat) * 2 powi (ilog2 \<bar>q\<bar> - 52)) = 1"
    by (simp only: sgn_1_pos)
  then have "sgn (sgn q * ((of_int (round_half_even (\<bar>q\<bar> / 2 powi (ilog2 \<bar>q\<bar> - 52))) :: rat) * 2 powi (ilog2 \<bar>q\<bar> - 52))) = sgn q"
    by (simp only: sgn_mult [of "sgn q"] sgn_sgn mult_1_right)
  then show ?thesis
    using False by (simp only: fl_def Let_def if_False)
qed

lemma fl_le_0_iff: "fl q \<le> 0 \<longleftrightarrow> q \<le> 0"
proof -
  have "fl q \<le> 0 \<longleftrightarrow> sgn (fl q) \<noteq> 1" by (simp add: sgn_1_pos not_less)
  also have "\<dots> \<longleftrightarrow> sgn q \<noteq> 1" by (simp only: sgn_fl)
  also have "\<dots> \<longleftrightarrow> q \<le> 0" by (simp add: sgn_1_pos not_less)
  finally show ?thesis .
qed

lemma fsub_le_0_iff: "fsub a b \<le> 0 \<longleftrightarrow> a \<le> b"
  by (simp add: fsub_def fl_le_0_iff)

lemma insort_by_fsub: "insort_by (\<lambda>a b. fsub a b) x ys = insort x ys"
  by (induction ys) (simp_all add: fsub_le_0_iff)

lemma sort_by_fsub: "sort_by (\<lambda>a b. fsub a b) xs = sort xs"
  by (induction xs) (simp_all add: sort_by_def insort_by_fsub sort_key_def)

lemma fl_0: "fl 0 = 0"
  by (simp add: fl_def)


section \<open>Evaluating the rounding\<close>

lemma floor_rat_divide_numeral:
  "\<lfloor>(numeral a :: rat) / numeral b\<rfloor> = numeral a div numeral b"
  using floor_divide_of_int_eq [of "numeral a" "numeral b", where ?'a = rat] by simp

lemma ilog2_upper:
  assumes "0 < a"
  shows "a < 2 powi (ilog2 a + 1)"
proof -
  obtain n d where nd: "quotient_of a = (n, d)" by (cases "quotient_of a")
  have dpos: "0 < d" using nd by (rule quotient_of_denom_pos)
  have a_eq: "a = of_int n / of_int d" using nd by (rule quotient_of_div)
  have npos: "0 < n"
    using assms dpos by (simp add: a_eq zero_less_divide_iff)
  let ?k = "bitlen n - bitlen d"
  have bn: "1 \<le> bitlen n" and bd: "1 \<le> bitlen d"
    using npos dpos by (auto simp: bitlen_alt_def)
  have n_hi: "n < (2::int) ^ nat (bitlen n)"
    using bitlen_bounds [OF npos] by simp
  have d_lo: "(2::int) ^ nat (bitlen d - 1) \<le> d"
    using bitlen_bounds [OF dpos] by simp
  have n_hi': "of_int n < (2::rat) ^ nat (bitlen n)"
    using n_hi by (metis of_int_less_iff of_int_numeral of_int_power)
  have d_lo': "(2::rat) ^ nat (bitlen d - 1) \<le> of_int d"
    using d_lo by (metis of_int_le_iff of_int_numeral of_int_power)
  have "of_int n / of_int d < (2::rat) ^ nat (bitlen n) / of_int d"
    using n_hi' dpos by (simp add: divide_strict_right_mono)
  also have "\<dots> \<le> 2 ^ nat (bitlen n) / 2 ^ nat (bitlen d - 1)"
    using d_lo' by (simp add: frac_le)
  also have "\<dots> = 2 powi (bitlen n) / 2 powi (bitlen d - 1)"
    using bn bd by (simp add: power_int_def)
  also have "\<dots> = 2 powi (bitlen n - (bitlen d - 1))"
    by (rule power_int_diff [symmetric]) simp
  also have "bitlen n - (bitlen d - 1) = ?k + 1" by simp
  finally have hi: "a < 2 powi (?k + 1)" by (simp only: a_eq)
  show ?thesis
  proof (cases "(2::rat) powi ?k \<le> a")
    case True
    then show ?thesis using hi by (simp add: ilog2_def nd Let_def)
  next
    case False
    then show ?thesis by (simp add: ilog2_def nd Let_def)
  qed
qed

lemma ilog2_unique:
  assumes "0 < a" and lo: "2 powi p \<le> a" and hi: "a < 2 powi (p + 1)"
  shows "ilog2 a = p"
proof -
  have "(2::rat) powi p < 2 powi (ilog2 a + 1)"
    using lo ilog2_upper [OF \<open>0 < a\<close>] by (rule order_le_less_trans)
  then have 1: "p < ilog2 a + 1"
    using power_int_increasing [of "ilog2 a + 1" p "2::rat"] by (cases "p < ilog2 a + 1") simp_all
  have "(2::rat) powi (ilog2 a) < 2 powi (p + 1)"
    using ilog2_lower [OF \<open>0 < a\<close>] hi by (rule order_le_less_trans)
  then have 2: "ilog2 a < p + 1"
    using power_int_increasing [of "p + 1" "ilog2 a" "2::rat"] by (cases "ilog2 a < p + 1") simp_all
  from 1 2 show ?thesis by simp
qed

lemma fl_pos_eval:
  assumes "0 < q" and "2 powi p \<le> q" and "q < 2 powi (p + 1)"
  shows "fl q = of_int (round_half_even (q / 2 powi (p - 52))) * 2 powi (p - 52)"
proof -
  have "ilog2 \<bar>q\<bar> = p"
    using assms by (simp add: ilog2_unique)
  then show ?thesis
    using \<open>0 < q\<close> by (simp add: fl_def Let_def)
qed

lemma fl_1: "fl 1 = 1"
  using fl_pos_eval [of "1" "0"]
  by (simp add: round_half_even_def Let_def floor_rat_divide_numeral)

lemma fl_half: "fl (1 / 2) = 1 / 2"
  using fl_pos_eval [of "1 / 2" "- 1"]
  by (simp add: round_half_even_def Let_def floor_rat_divide_numeral)

lemma fl_47_10: "fl (47 / 10) = 5291729562160333 / 1125899906842624"
  using fl_pos_eval [of "47 / 10" 2]
  by (simp add: round_half_even_def Let_def floor_rat_divide_numeral)

lemma fl_7_10: "fl (7 / 10) = 3152519739159347 / 4503599627370496"
  using fl_pos_eval [of "7 / 10" "- 1"]
  by (simp add: round_half_even_def Let_def floor_rat_divide_numeral)

lemma fl_4_10: "fl (4 / 10) = 3602879701896397 / 9007199254740992"
  using fl_pos_eval [of "4 / 10" "- 2"]
  by (simp add: round_half_even_def Let_def floor_rat_divide_numeral)

lemma fl_2: "fl 2 = 2"
  using fl_pos_eval [of "2" "1"]
  by (simp add: round_half_even_def Let_def floor_rat_divide_numeral)

lemma fl_100: "fl 100 = 100"
  using fl_pos_eval [of "100" "6"]
  by (simp add: round_half_even_def Let_def floor_rat_divide_numeral)

lemma fl_200: "fl 200 = 200"
  using fl_pos_eval [of "200" "7"]
  by (simp add: round_half_even_def Let_def floor_rat_divide_numeral)

lemma fl_weight_7_10: "fl (3152519739159347 / 4503599627370496) = 3152519739159347 / 4503599627370496"
  using fl_pos_eval [of "3152519739159347 / 4503599627370496" "- 1"]
  by (simp add: round_half_even_def Let_def floor_rat_divide_numeral)

lemma fl_weight_4_10: "fl (3602879701896397 / 9007199254740992) = 3602879701896397 / 9007199254740992"
  using fl_pos_eval [of "3602879701896397 / 9007199254740992" "- 2"]
  by (simp add: round_half_even_def Let_def floor_rat_divide_numeral)

lemma sum_3: "fl (2 + 3152519739159347 / 4503599627370496) = 3039929748475085 / 1125899906842624"
  using fl_pos_eval [of "2 + 3152519739159347 / 4503599627370496" "1"]
  by (simp add: round_half_even_def Let_def floor_rat_divide_numeral)

lemma sum_4: "fl (3039929748475085 / 1125899906842624 + 3152519739159347 / 4503599627370496) = 1914029841632461 / 562949953421312"
  using fl_pos_eval [of "3039929748475085 / 1125899906842624 + 3152519739159347 / 4503599627370496" "1"]
  by (simp add: round_half_even_def Let_def floor_rat_divide_numeral)

lemma sum_5: "fl (1914029841632461 / 562949953421312 + 3602879701896397 / 9007199254740992) = 8556839292003943 / 2251799813685248"
  using fl_pos_eval [of "1914029841632461 / 562949953421312 + 3602879701896397 / 9007199254740992" "1"]
  by (simp add: round_half_even_def Let_def floor_rat_divide_numeral)

lemma sum_6: "fl (8556839292003943 / 2251799813685248 + 3602879701896397 / 9007199254740992) = 4728779608739021 / 1125899906842624"
  using fl_pos_eval [of "8556839292003943 / 2251799813685248 + 3602879701896397 / 9007199254740992" "2"]
  by (simp add: round_half_even_def Let_def floor_rat_divide_numeral)

lemma sum_7: "fl (4728779608739021 / 1125899906842624 + 1 / 2) = 5291729562160333 / 1125899906842624"
  using fl_pos_eval [of "4728779608739021 / 1125899906842624 + 1 / 2" "2"]
  by (simp add: round_half_even_def Let_def floor_rat_divide_numeral)

lemma fl_100_tw: "fl (100 * (5291729562160333 / 1125899906842624)) = 470"
  using fl_pos_eval [of "100 * (5291729562160333 / 1125899906842624)" "8"]
  by (simp add: round_half_even_def Let_def floor_rat_divide_numeral)

lemma fl_470_tw: "fl (470 / (5291729562160333 / 1125899906842624)) = 100"
  using fl_pos_eval [of "470 / (5291729562160333 / 1125899906842624)" "6"]
  by (simp add: round_half_even_def Let_def floor_rat_divide_numeral)

lemma fl_100_div_tw: "fl (100 / (5291729562160333 / 1125899906842624)) = 5988829291716085 / 281474976710656"
  using fl_pos_eval [of "100 / (5291729562160333 / 1125899906842624)" "4"]
  by (simp add: round_half_even_def Let_def floor_rat_divide_numeral)

lemma fl_200_div_tw: "fl (200 / (5291729562160333 / 1125899906842624)) = 5988829291716085 / 140737488355328"
  using fl_pos_eval [of "200 / (5291729562160333 / 1125899906842624)" "5"]
  by (simp add: round_half_even_def Let_def floor_rat_divide_numeral)

lemma weights_values:
  "weights total_packers = 3152519739159347 / 4503599627370496"
  "weights total_pickers = 3152519739159347 / 4503599627370496"
  "weights total_warehouses_packers = 3602879701896397 / 9007199254740992"
  "weights total_warehouses_pickers = 3602879701896397 / 9007199254740992"
  by (simp_all only: weights.simps fl_7_10 fl_4_10)

lemma totalWeight_value: "totalWeight = 5291729562160333 / 1125899906842624"
proof -
  have "totalWeight =
    fadd (fadd (fadd (fadd (fadd (fadd (fadd 0 1) 1) (3152519739159347 / 4503599627370496)) (3152519739159347 / 4503599627370496)) (3602879701896397 / 9007199254740992)) (3602879701896397 / 9007199254740992)) (1 / 2)"
    by (simp only: totalWeight_def metricsKeys_def list.map foldl_Cons foldl_Nil weights.simps fl_7_10 fl_4_10)
  also have "fadd 0 1 = 1" by (simp add: fadd_def fl_1)
  also have "fadd 1 1 = 2" by (simp add: fadd_def fl_2)
  also have "fadd 2 (3152519739159347 / 4503599627370496) = 3039929748475085 / 1125899906842624" unfolding fadd_def by (rule sum_3)
  also have "fadd (3039929748475085 / 1125899906842624) (3152519739159347 / 4503599627370496) = 1914029841632461 / 562949953421312" unfolding fadd_def by (rule sum_4)
  also have "fadd (1914029841632461 / 562949953421312) (3602879701896397 / 9007199254740992) = 8556839292003943 / 2251799813685248" unfolding fadd_def by (rule sum_5)
  also have "fadd (8556839292003943 / 2251799813685248) (3602879701896397 / 9007199254740992) = 4728779608739021 / 1125899906842624" unfolding fadd_def by (rule sum_6)
  also have "fadd (4728779608739021 / 1125899906842624) (1 / 2) = 5291729562160333 / 1125899906842624" unfolding fadd_def by (rule sum_7)
  finally show ?thesis .
qed

lemma totalWeight_literal: "totalWeight = fl (47 / 10)"
  by (simp only: totalWeight_value fl_47_10)

lemma hundred: "fdiv (fmul 100 totalWeight) totalWeight = 100"
  unfolding totalWeight_value fmul_def fdiv_def by (simp only: fl_100_tw fl_470_tw)

section \<open>The rounding is to nearest with 53 bits\<close>

text \<open>The significand that \<open>fl\<close> keeps is an integer between \<open>2 ^ 52\<close> and \<open>2 ^ 53\<close>, at
  most one half away from the scaled exact value.\<close>

lemma round_half_even_near: "\<bar>x - of_int (round_half_even x)\<bar> \<le> 1 / 2"
proof -
  have "of_int \<lfloor>x\<rfloor> \<le> x" and "x < of_int \<lfloor>x\<rfloor> + 1"
    by linarith+
  then show ?thesis
    by (auto simp: round_half_even_def Let_def)
qed

lemma round_half_even_le: "round_half_even x \<le> \<lfloor>x\<rfloor> + 1"
  by (simp add: round_half_even_def Let_def)

lemma fl_scaled_range:
  assumes "0 < a"
  shows "2 ^ 52 \<le> a / 2 powi (ilog2 a - 52)" and "a / 2 powi (ilog2 a - 52) < 2 ^ 53"
proof -
  let ?e = "ilog2 a - 52"
  have "(2::rat) powi 52 * 2 powi ?e = 2 powi (52 + ?e)"
    by (rule power_int_add [symmetric]) simp
  also have "52 + ?e = ilog2 a" by simp
  finally have lo: "(2::rat) powi 52 * 2 powi ?e = 2 powi (ilog2 a)" .
  have "(2::rat) powi 53 * 2 powi ?e = 2 powi (53 + ?e)"
    by (rule power_int_add [symmetric]) simp
  also have "53 + ?e = ilog2 a + 1" by simp
  finally have hi: "(2::rat) powi 53 * 2 powi ?e = 2 powi (ilog2 a + 1)" .
  have "(2::rat) powi 52 * 2 powi ?e \<le> a"
    unfolding lo using assms by (rule ilog2_lower)
  then have "(2::rat) powi 52 \<le> a / 2 powi ?e"
    by (simp add: pos_le_divide_eq)
  then show "2 ^ 52 \<le> a / 2 powi ?e" by simp
  have "a < (2::rat) powi 53 * 2 powi ?e"
    unfolding hi using assms by (rule ilog2_upper)
  then have "a / 2 powi ?e < (2::rat) powi 53"
    by (simp add: pos_divide_less_eq)
  then show "a / 2 powi ?e < 2 ^ 53" by simp
qed

lemma fl_significand:
  assumes "q \<noteq> 0"
  shows "2 ^ 52 \<le> round_half_even (\<bar>q\<bar> / 2 powi (ilog2 \<bar>q\<bar> - 52))"
    and "round_half_even (\<bar>q\<bar> / 2 powi (ilog2 \<bar>q\<bar> - 52)) \<le> 2 ^ 53"
proof -
  let ?x = "\<bar>q\<bar> / 2 powi (ilog2 \<bar>q\<bar> - 52)"
  have a: "0 < \<bar>q\<bar>" using assms by simp
  have "of_int (2 ^ 52) \<le> ?x" using fl_scaled_range(1) [OF a] by simp
  then have "2 ^ 52 \<le> \<lfloor>?x\<rfloor>" by (simp only: le_floor_iff)
  then show "2 ^ 52 \<le> round_half_even ?x"
    using round_half_even_ge_floor [of ?x] by linarith
  have "?x < of_int (2 ^ 53)" using fl_scaled_range(2) [OF a] by simp
  then have "\<lfloor>?x\<rfloor> < 2 ^ 53" by (simp only: floor_less_iff)
  then show "round_half_even ?x \<le> 2 ^ 53"
    using round_half_even_le [of ?x] by linarith
qed

section \<open>Sorting and the percentile\<close>

lemma mset_insort_by: "mset (insort_by cmp x ys) = add_mset x (mset ys)"
  by (induction ys) simp_all

lemma mset_sort_by: "mset (sort_by cmp xs) = mset xs"
  by (induction xs) (simp_all add: sort_by_def mset_insort_by)

lemma set_sort_by: "set (sort_by cmp xs) = set xs"
  using mset_sort_by [of cmp xs] by (metis set_mset_mset)

lemma length_sort_by: "length (sort_by cmp xs) = length xs"
  using mset_sort_by [of cmp xs] by (metis size_mset)

lemma sort_by_Cons: "sort_by cmp (x # xs) = insort_by cmp x (sort_by cmp xs)"
  by (simp add: sort_by_def)

lemma sort_by_Nil: "sort_by cmp [] = []"
  by (simp add: sort_by_def)

lemma q75_of_apply:
  "q75_of safeRows key = Some (or1 (Some (percentile75 (map (\<lambda>r. field r key) safeRows))))"
  by (cases key) (simp_all add: q75_of_def metricsKeys_def)

lemma or1_nonzero: "or1 x \<noteq> 0"
  by (simp add: or1_def split: option.split)

lemma or1_idem: "or1 (Some (or1 x)) = or1 x"
  by (simp add: or1_def split: option.split)

lemma idx75_less: "0 < n \<Longrightarrow> nat \<lfloor>(3 / 4 :: rat) * (of_nat n - 1)\<rfloor> < n"
proof -
  assume "0 < n"
  have "(3 / 4 :: rat) * (of_nat n - 1) < of_int (int n)" by simp
  then have "\<lfloor>(3 / 4 :: rat) * (of_nat n - 1)\<rfloor> < int n" by (simp only: floor_less_iff)
  then show ?thesis using \<open>0 < n\<close> by linarith
qed

lemma idx75_div: "0 < n \<Longrightarrow> nat \<lfloor>(3 / 4 :: rat) * (of_nat n - 1)\<rfloor> = (3 * (n - 1)) div 4"
proof -
  assume n: "0 < n"
  have "(3 / 4 :: rat) * (of_nat n - 1) = of_int (3 * (int n - 1)) / of_int 4" by simp
  then have "\<lfloor>(3 / 4 :: rat) * (of_nat n - 1)\<rfloor> = (3 * (int n - 1)) div 4"
    by (simp only: floor_divide_of_int_eq)
  also have "\<dots> = int ((3 * (n - 1)) div 4)" using n by (simp add: zdiv_int)
  finally show ?thesis by simp
qed

lemma percentile75_nonempty:
  assumes "vs \<noteq> []"
  shows "percentile75 vs =
    (let v = sort vs ! nat \<lfloor>(3 / 4 :: rat) * (of_nat (length vs) - 1)\<rfloor>
     in if v = 0 then 1 else v)"
proof -
  have "0 < length vs" using assms by simp
  then have "nat \<lfloor>(3 / 4 :: rat) * (of_nat (length vs) - 1)\<rfloor> < length (sort vs)"
    using idx75_less [of "length vs"] by simp
  then show ?thesis
    using assms by (simp add: percentile75_def sort_by_fsub at_index_def or1_def Let_def)
qed

lemma percentile75_nonzero: "percentile75 vs \<noteq> 0"
  by (simp add: percentile75_def or1_nonzero Let_def)

lemma percentile75_example: "percentile75 [1, 2, 3, 4] = 3"
proof -
  have i: "nat \<lfloor>(3 / 4 :: rat) * (of_nat (length [1, 2, 3, 4 :: rat]) - 1)\<rfloor> = 2"
    by (subst idx75_div) simp_all
  have "percentile75 [1, 2, 3, 4] =
    (let v = sort [1, 2, 3, 4 :: rat] ! nat \<lfloor>(3 / 4 :: rat) * (of_nat (length [1, 2, 3, 4 :: rat]) - 1)\<rfloor>
     in if v = 0 then 1 else v)"
    by (rule percentile75_nonempty) simp
  then show ?thesis
    unfolding i by simp
qed

lemma percentile75_Nil: "percentile75 [] = 1"
  by (simp add: percentile75_def)


lemma sorted_insort_by:
  assumes tr: "\<And>a b c. cmp a b \<le> 0 \<Longrightarrow> cmp b c \<le> 0 \<Longrightarrow> cmp a c \<le> 0"
    and tot: "\<And>a b. cmp a b \<le> 0 \<or> cmp b a \<le> 0"
  shows "sorted_wrt (\<lambda>a b. cmp a b \<le> 0) ys \<Longrightarrow> sorted_wrt (\<lambda>a b. cmp a b \<le> 0) (insort_by cmp x ys)"
proof (induction ys)
  case Nil
  then show ?case by simp
next
  case (Cons y ys)
  show ?case
  proof (cases "cmp x y \<le> 0")
    case True
    then have "\<forall>z\<in>set ys. cmp x z \<le> 0"
      using Cons.prems tr by auto
    then show ?thesis using True Cons.prems by simp
  next
    case False
    then have yx: "cmp y x \<le> 0" using tot [of x y] by simp
    have "set (insort_by cmp x ys) = insert x (set ys)"
      using mset_insort_by [of cmp x ys] by (metis set_mset_mset set_mset_add_mset_insert)
    then show ?thesis using False yx Cons by simp
  qed
qed

lemma sorted_sort_by:
  assumes tr: "\<And>a b c. cmp a b \<le> 0 \<Longrightarrow> cmp b c \<le> 0 \<Longrightarrow> cmp a c \<le> 0"
    and tot: "\<And>a b. cmp a b \<le> 0 \<or> cmp b a \<le> 0"
  shows "sorted_wrt (\<lambda>a b. cmp a b \<le> 0) (sort_by cmp xs)"
proof (induction xs)
  case Nil
  show ?case by (simp add: sort_by_Nil)
next
  case (Cons x xs)
  show ?case
    unfolding sort_by_Cons using tr tot Cons by (rule sorted_insort_by)
qed

lemma codeUnitCompare_total: "codeUnitCompare a b \<le> 0 \<or> codeUnitCompare b a \<le> 0"
  by (induction a b rule: codeUnitCompare.induct) auto

lemma codeUnitCompare_trans:
  "codeUnitCompare a b \<le> 0 \<Longrightarrow> codeUnitCompare b c \<le> 0 \<Longrightarrow> codeUnitCompare a c \<le> 0"
proof (induction a arbitrary: b c)
  case Nil
  then show ?case by (cases c) simp_all
next
  case (Cons x xs)
  then show ?case
    by (cases b; cases c) (auto split: if_splits)
qed


lemma replace_space_spec: "replace_space d @ ''Z'' = spec_timestamp d"
  by (induction d) (auto simp: spec_timestamp_def)

lemma length_replace_space: "length (replace_space d) = length d"
  by (induction d) auto

lemma date_safeRow: "date (safeRow r) = date r"
  by (simp add: safeRow_def)

lemma safeRow_zero_filled: "safeRow (zero_filled r) = safeRow r"
  by (auto simp: safeRow_def zero_filled_def split: option.split)

lemma fdiv_0: "fdiv 0 d = 0"
  by (simp add: fdiv_def fl_0)

lemma fmul_0_right: "fmul w 0 = 0"
  by (simp add: fmul_def fl_0)


section \<open>Scores\<close>

lemma fdiv_self: "v \<noteq> 0 \<Longrightarrow> fdiv v v = 1"
  by (simp add: fdiv_def fl_1)

lemma fmul_weights_1: "fmul (weights key) 1 = weights key"
proof (cases key)
  case total_packers
  then show ?thesis by (simp only: weights_values fmul_def mult_1_right fl_weight_7_10)
next
  case total_pickers
  then show ?thesis by (simp only: weights_values fmul_def mult_1_right fl_weight_7_10)
next
  case total_warehouses_packers
  then show ?thesis by (simp only: weights_values fmul_def mult_1_right fl_weight_4_10)
next
  case total_warehouses_pickers
  then show ?thesis by (simp only: weights_values fmul_def mult_1_right fl_weight_4_10)
qed (simp_all add: fmul_def fl_1 fl_half)

lemma score_of_at_q75:
  assumes "\<And>key. field r key = or1 (q75 key)"
  shows "score_of q75 r = totalWeight"
proof -
  have contrib: "fmul (weights key) (fdiv (field r key) (or1 (q75 key))) = weights key" for key
    using or1_nonzero [of "q75 key"] by (simp add: assms fdiv_self fmul_weights_1)
  have "score_of q75 r = foldl (\<lambda>score key. fadd score (weights key)) 0 metricsKeys"
    by (simp add: score_of_def Let_def contrib)
  also have "\<dots> = totalWeight"
    by (simp add: totalWeight_def foldl_map)
  finally show ?thesis .
qed

lemma percentile75_single: "percentile75 [v] = (if v = 0 then 1 else v)"
  by (simp add: percentile75_def sort_by_fsub at_index_def or1_def)


lemma percentile75_pair: "percentile75 [a, b] = (if min a b = 0 then 1 else min a b)"
proof -
  have i: "nat \<lfloor>(3 / 4 :: rat) * (of_nat (length [a, b]) - 1)\<rfloor> = 0"
    by (subst idx75_div) simp_all
  have "percentile75 [a, b] =
    (let v = sort [a, b] ! nat \<lfloor>(3 / 4 :: rat) * (of_nat (length [a, b]) - 1)\<rfloor>
     in if v = 0 then 1 else v)"
    by (rule percentile75_nonempty) simp
  then show ?thesis
    unfolding i by (auto simp: min_def)
qed

lemma fadd_0_left: "fadd 0 x = fl x"
  by (simp add: fadd_def)

lemma fadd_0_right: "fadd x 0 = fl x"
  by (simp add: fadd_def)

lemma fdiv_20_10: "fdiv 20 10 = 2"
  by (simp add: fdiv_def fl_2)

lemma fmul_1_left: "fmul 1 x = fl x"
  by (simp add: fmul_def)

lemma fmul_100_1: "fmul 100 1 = 100"
  by (simp add: fmul_def fl_100)

lemma fmul_100_2: "fmul 100 2 = 200"
  by (simp add: fmul_def fl_200)

lemma intensity_1: "fdiv (fmul 100 1) (fl (47 / 10)) = 5988829291716085 / 281474976710656"
  by (simp only: fmul_100_1 fl_47_10 fdiv_def fl_100_div_tw)

lemma intensity_2: "fdiv (fmul 100 2) (fl (47 / 10)) = 5988829291716085 / 140737488355328"
  by (simp only: fmul_100_2 fl_47_10 fdiv_def fl_200_div_tw)


section \<open>Reading and writing the store\<close>

lemma those_eq_Some_iff: "those xs = Some ys \<longleftrightarrow> xs = map Some ys"
  by (induction xs arbitrary: ys) (auto split: option.splits)

lemma those_map_Some: "those (map Some xs) = Some xs"
  by (simp add: those_eq_Some_iff)

lemma at_index_Some_less: "at_index h p = Some c \<Longrightarrow> p < length h"
  by (simp add: at_index_def split: if_splits)

lemma row_at_append: "row_at h p = Some r \<Longrightarrow> row_at (h @ xs) p = Some r"
  by (auto simp: row_at_def at_index_def nth_append split: if_splits)

lemma rows_append:
  "map (row_at h) ps = map Some rs \<Longrightarrow> map (row_at (h @ xs)) ps = map Some rs"
proof (induction ps arbitrary: rs)
  case Nil
  then show ?case by simp
next
  case (Cons p ps)
  then show ?case by (cases rs) (auto simp: row_at_append)
qed

lemma copy_rows_spec:
  "map (row_at h) ps = map Some rs \<Longrightarrow>
   copy_rows h ps =
     Some (h @ map (\<lambda>r. SafeObj (safeRow r)) rs, [length h ..< length h + length rs])"
proof (induction ps arbitrary: h rs)
  case Nil
  then show ?case by simp
next
  case (Cons p ps)
  from Cons.prems obtain r rs' where rs: "rs = r # rs'"
    and p: "row_at h p = Some r" and ps: "map (row_at h) ps = map Some rs'"
    by (cases rs) auto
  have "map (row_at (h @ [SafeObj (safeRow r)])) ps = map Some rs'"
    using ps by (rule rows_append)
  then have "copy_rows (h @ [SafeObj (safeRow r)]) ps =
     Some ((h @ [SafeObj (safeRow r)]) @ map (\<lambda>r. SafeObj (safeRow r)) rs',
           [length (h @ [SafeObj (safeRow r)]) ..< length (h @ [SafeObj (safeRow r)]) + length rs'])"
    by (rule Cons.IH)
  then have rec: "copy_rows (h @ [SafeObj (safeRow r)]) ps =
     Some (h @ SafeObj (safeRow r) # map (\<lambda>r. SafeObj (safeRow r)) rs',
           [Suc (length h) ..< length h + Suc (length rs')])"
    by simp
  have "[length h ..< length h + Suc (length rs')] =
        length h # [Suc (length h) ..< length h + Suc (length rs')]"
    by (rule upt_conv_Cons) simp
  then show ?case
    by (simp add: p rs alloc_def rec del: upt_Suc)
qed

lemma sort_by_map:
  "map f (sort_by (\<lambda>x y. cmp (f x) (f y)) xs) = sort_by cmp (map f xs)"
proof (induction xs)
  case Nil
  show ?case by (simp add: sort_by_Nil)
next
  case (Cons x xs)
  have ins: "map f (insort_by (\<lambda>x y. cmp (f x) (f y)) x ys) = insort_by cmp (f x) (map f ys)" for ys
    by (induction ys) simp_all
  show ?case
    by (simp add: sort_by_Cons ins Cons.IH)
qed

lemma safe_at_fresh:
  assumes "i < length ss"
  shows "safe_at ((h @ map SafeObj ss @ [c])[length h + length ss := c']) (length h + i) = Some (ss ! i)"
  using assms by (simp add: safe_at_def at_index_def nth_append)


section \<open>The invariant of the join\<close>

lemma computeHeartbeat_Nil: "computeHeartbeat localeCompare [] = []"
  by (simp add: computeHeartbeat_def sortedRows_def sort_by_Nil)

lemma keyed_Nil: "keyed []"
  by (simp add: keyed_def)

lemma ensureRow_keyed:
  assumes "keyed m"
  shows "keyed (fst (ensureRow m d))"
proof (cases "map_of m d")
  case None
  then have "d \<notin> fst ` set m" by (simp add: map_of_eq_None_iff)
  then show ?thesis using assms None by (simp add: ensureRow_def keyed_def Let_def)
next
  case (Some row)
  then show ?thesis using assms by (simp add: ensureRow_def)
qed

lemma set_field_keys:
  "map fst (set_field m d key v) = map fst m"
  "map (\<lambda>e. date (snd e)) (set_field m d key v) = map (\<lambda>e. date (snd e)) m"
  by (induction m) (auto simp: set_field_def)

lemma set_field_keyed: "keyed (set_field m d key v) = keyed m"
  by (simp only: keyed_def set_field_keys)

lemma set_finite_keyed: "keyed (set_finite m d key x) = keyed m"
  by (simp add: set_finite_def set_field_keyed split: option.split)

lemma orders_step_keyed: "keyed m \<Longrightarrow> keyed (orders_step trim toNumber m row)"
  by (simp add: orders_step_def Let_def set_finite_keyed ensureRow_keyed split_beta)

lemma labels_step_keyed: "keyed m \<Longrightarrow> keyed (labels_step trim toNumber m row)"
  by (simp add: labels_step_def Let_def set_finite_keyed ensureRow_keyed split_beta)

lemma packers_step_keyed: "keyed m \<Longrightarrow> keyed (packers_step trim toNumber m row)"
  by (simp add: packers_step_def Let_def set_finite_keyed ensureRow_keyed split_beta)

lemma pickers_step_keyed: "keyed m \<Longrightarrow> keyed (pickers_step trim toNumber m row)"
  by (simp add: pickers_step_def Let_def set_finite_keyed ensureRow_keyed split_beta)

lemma countries_step_keyed: "keyed m \<Longrightarrow> keyed (countries_step m entry)"
  by (simp add: countries_step_def Let_def set_field_keyed ensureRow_keyed split_beta)

lemma foldl_keyed:
  assumes "\<And>m x. keyed m \<Longrightarrow> keyed (f m x)"
  shows "keyed m \<Longrightarrow> keyed (foldl f m xs)"
  by (induction xs arbitrary: m) (simp_all add: assms)

lemma build_rows_distinct:
  "distinct (map date (build_rows trim toNumber ordersCsv labelsCsv byCountryCsv packersCsv pickersCsv))"
proof -
  let ?m1 = "foldl (orders_step trim toNumber) [] ordersCsv"
  let ?m2 = "foldl (labels_step trim toNumber) ?m1 labelsCsv"
  let ?m3 = "foldl (packers_step trim toNumber) ?m2 packersCsv"
  let ?m4 = "foldl (pickers_step trim toNumber) ?m3 pickersCsv"
  let ?m5 = "foldl countries_step ?m4 (foldl (country_step trim) [] byCountryCsv)"
  have k1: "keyed ?m1" by (rule foldl_keyed) (simp_all add: orders_step_keyed keyed_Nil)
  have k2: "keyed ?m2" by (rule foldl_keyed) (simp_all add: labels_step_keyed k1)
  have k3: "keyed ?m3" by (rule foldl_keyed) (simp_all add: packers_step_keyed k2)
  have k4: "keyed ?m4" by (rule foldl_keyed) (simp_all add: pickers_step_keyed k3)
  have k5: "keyed ?m5" by (rule foldl_keyed) (simp_all add: countries_step_keyed k4)
  then have "distinct (map (\<lambda>e. date (snd e)) ?m5)" by (simp only: keyed_def)
  then show ?thesis by (simp add: build_rows_def Let_def comp_def)
qed

text \<open>A run of the join: two tables meet in one row for \<open>2025-11-21\<close>, a value that
  is not a finite number is left absent, and three country lines count two countries.\<close>

lemma build_rows_example:
  "map (\<lambda>r. (date r, map (field r) metricsKeys))
     (build_rows (\<lambda>s. s)
        (\<lambda>x. if x = Some ''120'' then Some 120 else if x = Some ''98'' then Some 98 else None)
        [[''date_utc'' \<mapsto> ''2025-11-21'', ''orders'' \<mapsto> ''120'']]
        [[''date'' \<mapsto> ''2025-11-21'', ''shipping_labels'' \<mapsto> ''98''],
         [''date'' \<mapsto> ''2025-11-22'', ''shipping_labels'' \<mapsto> ''n/a'']]
        [[''date'' \<mapsto> ''2025-11-21'', ''shipping_country'' \<mapsto> ''US''],
         [''date'' \<mapsto> ''2025-11-21'', ''shipping_country'' \<mapsto> ''CA''],
         [''date'' \<mapsto> ''2025-11-21'', ''shipping_country'' \<mapsto> ''US'']]
        [] [])
   = [(''2025-11-21'', [Some 120, Some 98, None, None, None, None, Some 2]),
      (''2025-11-22'', [None, None, None, None, None, None, None])]"
  by (simp add: build_rows_def orders_step_def labels_step_def country_step_def countries_step_def
      ensureRow_def set_finite_def set_field_def blank_def metricsKeys_def Let_def)

lemma distinct_dates_sortedRows:
  "distinct (map date (sortedRows localeCompare safeRows)) = distinct (map date safeRows)"
proof -
  have "mset (map date (sortedRows localeCompare safeRows)) = mset (map date safeRows)"
    by (simp add: sortedRows_def mset_sort_by)
  then show ?thesis by (rule mset_eq_imp_distinct_iff)
qed


section \<open>The collation is a consistent comparator\<close>

lemma collate_le:
  "collate a b \<le> 0 \<longleftrightarrow>
     map primary a < map primary b \<or> map primary a = map primary b \<and> map caseRank a \<le> map caseRank b"
  by (auto simp: collate_def)

lemma collate_total: "collate a b \<le> 0 \<or> collate b a \<le> 0"
  unfolding collate_le by auto

lemma collate_trans: "collate a b \<le> 0 \<Longrightarrow> collate b c \<le> 0 \<Longrightarrow> collate a c \<le> 0"
  unfolding collate_le by auto

lemma primary_digit: "digit x \<Longrightarrow> primary x = of_char x - 45"
  by (auto simp: digit_def primary_def Let_def)

lemma collate_lexical: "same_layout a b \<Longrightarrow> (collate a b \<le> 0) = (codeUnitCompare a b \<le> 0)"
proof (induction a b rule: same_layout.induct)
  case (1 ys)
  then show ?case by (cases ys) (simp_all add: collate_le)
next
  case (2 x xs)
  then show ?case by (simp add: collate_le)
next
  case (3 x xs y ys)
  show ?case
  proof (cases "x = y")
    case True
    then show ?thesis using 3 by (simp add: collate_le)
  next
    case False
    then have d: "digit x" "digit y" using "3.prems" by auto
    have ne: "(of_char x :: nat) \<noteq> of_char y" using False by simp
    have "45 \<le> (of_char x :: nat)" "45 \<le> (of_char y :: nat)" using d by (auto simp: digit_def)
    then show ?thesis
      using ne by (auto simp: collate_le primary_digit d)
  qed
qed


section \<open>The score of a row with absent fields\<close>

lemma score_of_safeRow:
  "score_of q75 (safeRow r) =
     foldl (\<lambda>score key.
              fadd score (case field r key of
                            None \<Rightarrow> 0
                          | Some v \<Rightarrow> fmul (weights key) (fdiv v (or1 (q75 key)))))
       0 metricsKeys"
proof -
  have "fmul (weights key) (fdiv (field (safeRow r) key) (or1 (q75 key))) =
        (case field r key of None \<Rightarrow> 0 | Some v \<Rightarrow> fmul (weights key) (fdiv v (or1 (q75 key))))" for key
    by (simp add: safeRow_def fdiv_0 fmul_0_right split: option.split)
  then show ?thesis
    by (simp add: score_of_def Let_def)
qed


section \<open>Empty input\<close>

text \<open>
  C7: \<^verbatim>\<open>computeHeartbeat\<close> applied to the empty sequence of records returns the empty
  sequence. The function has no failing branch: its result is a list for every input.
\<close>

theorem computeHeartbeat_empty: "computeHeartbeat localeCompare [] = []"
  by (simp add: computeHeartbeat_def sortedRows_def sort_by_def)

section \<open>The percentile denominator\<close>

text \<open>
  C2: for a non-empty input and each metric key, the \<^verbatim>\<open>q75\<close> denominator is the value at
  index \<open>floor (0.75 * (n - 1))\<close> of the key's values sorted ascending, with 1 in place
  of a zero; the index is inside the array; the denominator read back with
  \<^verbatim>\<open>q75[key] || 1\<close> is never zero; \<^verbatim>\<open>percentile75\<close> of \<open>[1, 2, 3, 4]\<close> is 3 and of the
  empty array is 1.
\<close>

theorem q75_denominator:
  assumes "rows \<noteq> []"
  shows "q75_of (map safeRow rows) key =
           Some (let v = sort (map (\<lambda>r. field (safeRow r) key) rows) !
                           nat \<lfloor>(3 / 4 :: rat) * (of_nat (length rows) - 1)\<rfloor>
                 in if v = 0 then 1 else v)
         \<and> nat \<lfloor>(3 / 4 :: rat) * (of_nat (length rows) - 1)\<rfloor> < length rows
         \<and> or1 (q75_of (map safeRow rows) key) \<noteq> 0
         \<and> percentile75 [1, 2, 3, 4] = 3
         \<and> percentile75 [] = 1"
proof -
  let ?vs = "map (\<lambda>r. field (safeRow r) key) rows"
  let ?i = "nat \<lfloor>(3 / 4 :: rat) * (of_nat (length rows) - 1)\<rfloor>"
  have vs: "map (\<lambda>r. field r key) (map safeRow rows) = ?vs" by (simp add: comp_def)
  have ne: "?vs \<noteq> []" using assms by simp
  have "percentile75 ?vs =
    (let v = sort ?vs ! nat \<lfloor>(3 / 4 :: rat) * (of_nat (length ?vs) - 1)\<rfloor>
     in if v = 0 then 1 else v)"
    using ne by (rule percentile75_nonempty)
  then have p: "percentile75 ?vs = (let v = sort ?vs ! ?i in if v = 0 then 1 else v)"
    by (simp only: length_map)
  have "or1 (Some (percentile75 ?vs)) = percentile75 ?vs"
    using percentile75_nonzero [of ?vs] by (simp add: or1_def)
  then have "q75_of (map safeRow rows) key = Some (percentile75 ?vs)"
    by (simp only: q75_of_apply vs)
  then have 1: "q75_of (map safeRow rows) key =
      Some (let v = sort ?vs ! ?i in if v = 0 then 1 else v)"
    by (simp only: p)
  have "0 < length rows" using assms by simp
  then have 2: "?i < length rows" by (rule idx75_less)
  show ?thesis
    using 1 2 by (simp only: or1_nonzero percentile75_example percentile75_Nil simp_thms)
qed

theorem q75_denominator_witness:
  "[\<lparr>date = ''2025-01-04'', field = (\<lambda>key. Some 4)\<rparr>,
    \<lparr>date = ''2025-01-01'', field = (\<lambda>key. Some 1)\<rparr>,
    \<lparr>date = ''2025-01-03'', field = (\<lambda>key. None)(orders \<mapsto> 3)\<rparr>,
    \<lparr>date = ''2025-01-02'', field = (\<lambda>key. Some 2)\<rparr>] \<noteq> ([] :: MetricsRow list)
   \<and> q75_of (map safeRow
        [\<lparr>date = ''2025-01-04'', field = (\<lambda>key. Some 4)\<rparr>,
         \<lparr>date = ''2025-01-01'', field = (\<lambda>key. Some 1)\<rparr>,
         \<lparr>date = ''2025-01-03'', field = (\<lambda>key. None)(orders \<mapsto> 3)\<rparr>,
         \<lparr>date = ''2025-01-02'', field = (\<lambda>key. Some 2)\<rparr>]) orders = Some 3"
  using q75_denominator [of
        "[\<lparr>date = ''2025-01-04'', field = (\<lambda>key. Some 4)\<rparr>,
         \<lparr>date = ''2025-01-01'', field = (\<lambda>key. Some 1)\<rparr>,
         \<lparr>date = ''2025-01-03'', field = (\<lambda>key. None)(orders \<mapsto> 3)\<rparr>,
         \<lparr>date = ''2025-01-02'', field = (\<lambda>key. Some 2)\<rparr>]" orders]
  by (simp add: safeRow_def floor_rat_divide_numeral)


section \<open>The total weight\<close>

text \<open>
  C5: the divisor of the intensity is the sum \<open>1.0 + 1.0 + 0.7 + 0.7 + 0.4 + 0.4 + 0.5\<close>
  accumulated from 0 in this order; in binary64 arithmetic it is exactly the number that
  the literal \<open>4.7\<close> denotes; and it is this constant for every \<open>q75\<close> and every row.
\<close>

theorem totalWeight_is_4_7:
  "totalWeight =
     fadd (fadd (fadd (fadd (fadd (fadd (fadd 0 1) 1) (fl (7 / 10))) (fl (7 / 10)))
       (fl (4 / 10))) (fl (4 / 10))) (1 / 2)
   \<and> totalWeight = fl (47 / 10)
   \<and> intensity (point_of q75 r) = fdiv (fmul 100 (score_of q75 r)) (fl (47 / 10))"
proof -
  have 1: "totalWeight =
     fadd (fadd (fadd (fadd (fadd (fadd (fadd 0 1) 1) (fl (7 / 10))) (fl (7 / 10)))
       (fl (4 / 10))) (fl (4 / 10))) (1 / 2)"
    by (simp add: totalWeight_def metricsKeys_def)
  have "intensity (point_of q75 r) = fdiv (fmul 100 (score_of q75 r)) totalWeight"
    by (simp add: point_of_def)
  then have 2: "intensity (point_of q75 r) = fdiv (fmul 100 (score_of q75 r)) (fl (47 / 10))"
    by (simp only: totalWeight_literal)
  show ?thesis
    using 1 totalWeight_literal 2 by (intro conjI)
qed


section \<open>Output order\<close>

text \<open>
  C3, as amended: the points returned are those of the rows of the input in an order in
  which the date strings ascend in the order of \<^verbatim>\<open>localeCompare\<close>, a consistent
  comparator (transitive and total); they ascend in lexical order, by code units, for
  every input on whose date strings \<^verbatim>\<open>localeCompare\<close> agrees with the comparison by code
  units. Date strings of the same layout are such an input (\<open>collate_lexical\<close>).
\<close>

theorem computeHeartbeat_sorted:
  assumes "\<forall>a b c. localeCompare a b \<le> 0 \<longrightarrow> localeCompare b c \<le> 0 \<longrightarrow> localeCompare a c \<le> 0"
    and "\<forall>a b. localeCompare a b \<le> 0 \<or> localeCompare b a \<le> 0"
  shows "computeHeartbeat localeCompare rows =
           map (point_of (q75_of (map safeRow rows))) (sortedRows localeCompare (map safeRow rows))
         \<and> mset (sortedRows localeCompare (map safeRow rows)) = mset (map safeRow rows)
         \<and> sorted_wrt (\<lambda>a b. localeCompare a b \<le> 0)
             (map date (sortedRows localeCompare (map safeRow rows)))
         \<and> ((\<forall>a\<in>set (map date rows). \<forall>b\<in>set (map date rows).
                 (localeCompare a b \<le> 0) = (codeUnitCompare a b \<le> 0)) \<longrightarrow>
              sorted_wrt (\<lambda>a b. codeUnitCompare a b \<le> 0)
                (map date (sortedRows localeCompare (map safeRow rows))))"
proof -
  let ?ds = "map date (sortedRows localeCompare (map safeRow rows))"
  have "sorted_wrt (\<lambda>a b. localeCompare (date a) (date b) \<le> 0)
          (sort_by (\<lambda>a b. localeCompare (date a) (date b)) (map safeRow rows))"
    using assms by (intro sorted_sort_by) blast+
  then have asc: "sorted_wrt (\<lambda>a b. localeCompare a b \<le> 0) ?ds"
    by (simp add: sorted_wrt_map sortedRows_def)
  have ds: "set ?ds = set (map date rows)"
    by (simp add: sortedRows_def set_sort_by image_image date_safeRow)
  have lex: "sorted_wrt (\<lambda>a b. codeUnitCompare a b \<le> 0) ?ds"
    if "\<forall>a\<in>set (map date rows). \<forall>b\<in>set (map date rows).
          (localeCompare a b \<le> 0) = (codeUnitCompare a b \<le> 0)"
  proof (rule sorted_wrt_mono_rel [OF _ asc])
    fix a b
    assume "a \<in> set ?ds" and "b \<in> set ?ds" and "localeCompare a b \<le> 0"
    then show "codeUnitCompare a b \<le> 0"
      using that by (simp only: ds)
  qed
  have 1: "computeHeartbeat localeCompare rows =
           map (point_of (q75_of (map safeRow rows))) (sortedRows localeCompare (map safeRow rows))"
    by (simp add: computeHeartbeat_def Let_def)
  have 2: "mset (sortedRows localeCompare (map safeRow rows)) = mset (map safeRow rows)"
    by (simp add: sortedRows_def mset_sort_by)
  from 1 2 asc lex show ?thesis by (intro conjI impI)
qed

theorem computeHeartbeat_sorted_witness:
  "sorted_wrt (\<lambda>a b. codeUnitCompare a b \<le> 0)
        (map date (sortedRows collate (map safeRow
           [\<lparr>date = ''2025-01-02 00:00:00'', field = (\<lambda>key. None)\<rparr>,
            \<lparr>date = ''2025-01-03'', field = (\<lambda>key. None)\<rparr>,
            \<lparr>date = ''2025-01-01 12:30:00'', field = (\<lambda>key. None)\<rparr>,
            \<lparr>date = ''2025-01-01 09:00:00'', field = (\<lambda>key. None)\<rparr>])))
   \<and> map date (sortedRows collate (map safeRow
           [\<lparr>date = ''2025-01-02 00:00:00'', field = (\<lambda>key. None)\<rparr>,
            \<lparr>date = ''2025-01-03'', field = (\<lambda>key. None)\<rparr>,
            \<lparr>date = ''2025-01-01 12:30:00'', field = (\<lambda>key. None)\<rparr>,
            \<lparr>date = ''2025-01-01 09:00:00'', field = (\<lambda>key. None)\<rparr>]))
       = [''2025-01-01 09:00:00'', ''2025-01-01 12:30:00'', ''2025-01-02 00:00:00'', ''2025-01-03'']"
proof -
  let ?rows = "[\<lparr>date = ''2025-01-02 00:00:00'', field = (\<lambda>key. None :: number option)\<rparr>,
            \<lparr>date = ''2025-01-03'', field = (\<lambda>key. None)\<rparr>,
            \<lparr>date = ''2025-01-01 12:30:00'', field = (\<lambda>key. None)\<rparr>,
            \<lparr>date = ''2025-01-01 09:00:00'', field = (\<lambda>key. None)\<rparr>]"
  have tr: "\<forall>a b c. collate a b \<le> 0 \<longrightarrow> collate b c \<le> 0 \<longrightarrow> collate a c \<le> 0"
    using collate_trans by blast
  have tot: "\<forall>a b. collate a b \<le> 0 \<or> collate b a \<le> 0"
    using collate_total by blast
  have "\<forall>a\<in>set (map date ?rows). \<forall>b\<in>set (map date ?rows). same_layout a b"
    by (simp add: digit_def)
  then have agree: "\<forall>a\<in>set (map date ?rows). \<forall>b\<in>set (map date ?rows).
      (collate a b \<le> 0) = (codeUnitCompare a b \<le> 0)"
    using collate_lexical by blast
  have ev: "map date (sortedRows collate (map safeRow ?rows))
       = [''2025-01-01 09:00:00'', ''2025-01-01 12:30:00'', ''2025-01-02 00:00:00'', ''2025-01-03'']"
    by (simp add: sortedRows_def sort_by_def safeRow_def collate_def primary_def caseRank_def Let_def)
  from computeHeartbeat_sorted [OF tr tot, of ?rows] agree
  have "sorted_wrt (\<lambda>a b. codeUnitCompare a b \<le> 0)
        (map date (sortedRows collate (map safeRow ?rows)))"
    by blast
  with ev show ?thesis by (intro conjI)
qed


text \<open>
  With lexical order in place of the order of \<^verbatim>\<open>localeCompare\<close> the statement fails. Under
  the collation of the runtime the record dated \<open>2025-01-01 1:00\<close> precedes the one dated
  \<open>2025-01-01 10:00\<close>, and \<open>a\<close> precedes \<open>B\<close>; by code units it is the other way round.
\<close>

theorem lexical_order_counterexample:
  "map date (sortedRows collate (map safeRow
       [\<lparr>date = ''2025-01-01 10:00'', field = (\<lambda>key. None)\<rparr>,
        \<lparr>date = ''2025-01-01 1:00'', field = (\<lambda>key. None)\<rparr>]))
     = [''2025-01-01 1:00'', ''2025-01-01 10:00'']
   \<and> map timestamp (computeHeartbeat collate
       [\<lparr>date = ''2025-01-01 10:00'', field = (\<lambda>key. None)\<rparr>,
        \<lparr>date = ''2025-01-01 1:00'', field = (\<lambda>key. None)\<rparr>])
     = [''2025-01-01T1:00Z'', ''2025-01-01T10:00Z'']
   \<and> \<not> sorted_wrt (\<lambda>a b. codeUnitCompare a b \<le> 0)
       (map date (sortedRows collate (map safeRow
         [\<lparr>date = ''2025-01-01 10:00'', field = (\<lambda>key. None)\<rparr>,
          \<lparr>date = ''2025-01-01 1:00'', field = (\<lambda>key. None)\<rparr>])))
   \<and> map timestamp (computeHeartbeat collate
       [\<lparr>date = ''B'', field = (\<lambda>key. None)\<rparr>,
        \<lparr>date = ''a'', field = (\<lambda>key. None)\<rparr>])
     = [''aZ'', ''BZ'']
   \<and> \<not> sorted_wrt (\<lambda>a b. codeUnitCompare a b \<le> 0)
       (map date (sortedRows collate (map safeRow
         [\<lparr>date = ''B'', field = (\<lambda>key. None)\<rparr>,
          \<lparr>date = ''a'', field = (\<lambda>key. None)\<rparr>])))"
  by (simp add: computeHeartbeat_def sortedRows_def sort_by_def safeRow_def point_of_def
      collate_def primary_def caseRank_def Let_def)

section \<open>Timestamps\<close>

text \<open>
  C8: the timestamp of each point is the date string of its record with the first space
  replaced by \<open>T\<close> and \<open>Z\<close> appended, position by position in output order and, as a
  multiset, over the input records; the result is one character longer than the date.
\<close>

theorem timestamp_decoration:
  "map timestamp (computeHeartbeat localeCompare rows) =
     map (\<lambda>r. spec_timestamp (date r)) (sortedRows localeCompare (map safeRow rows))
   \<and> mset (map timestamp (computeHeartbeat localeCompare rows)) =
       mset (map (\<lambda>r. spec_timestamp (date r)) rows)
   \<and> length (spec_timestamp d) = length d + 1"
proof -
  let ?rs = "sortedRows localeCompare (map safeRow rows)"
  have 1: "map timestamp (computeHeartbeat localeCompare rows) =
     map (\<lambda>r. spec_timestamp (date r)) ?rs"
    by (simp add: computeHeartbeat_def point_of_def replace_space_spec comp_def Let_def)
  have "mset (map (\<lambda>r. spec_timestamp (date r)) ?rs) =
        image_mset (\<lambda>r. spec_timestamp (date r)) (mset ?rs)"
    by simp
  also have "mset ?rs = mset (map safeRow rows)"
    by (simp add: sortedRows_def mset_sort_by)
  also have "image_mset (\<lambda>r. spec_timestamp (date r)) (mset (map safeRow rows)) =
        mset (map (\<lambda>r. spec_timestamp (date r)) rows)"
    by (simp add: comp_def date_safeRow multiset.map_comp)
  finally have 2: "mset (map timestamp (computeHeartbeat localeCompare rows)) =
       mset (map (\<lambda>r. spec_timestamp (date r)) rows)"
    by (simp only: 1)
  have 3: "length (spec_timestamp d) = length d + 1"
    using length_replace_space [of d] by (simp flip: replace_space_spec)
  show ?thesis using 1 2 3 by blast
qed


section \<open>Absent fields\<close>

text \<open>
  C6: an absent field counts as 0 and stays in the computation. The result on any input
  is the result on the input with every absent field set to 0; the array from which a
  key's percentile is taken holds one value for every record, 0 for an absent field; an
  absent field has a normalized term of zero and a weighted term of zero; the score of a
  row accumulates one term for each of the seven keys, the term 0 for an absent one; no
  record is dropped; and the intensity of every record divides its score by the full
  weight 4.7, whatever fields are absent.
\<close>

theorem absent_field_is_zero:
  "computeHeartbeat localeCompare rows = computeHeartbeat localeCompare (map zero_filled rows)
   \<and> q75_of (map safeRow rows) key =
       Some (or1 (Some (percentile75
         (map (\<lambda>r. case field r key of None \<Rightarrow> 0 | Some v \<Rightarrow> v) rows))))
   \<and> length (map (\<lambda>r. case field r key of None \<Rightarrow> 0 | Some v \<Rightarrow> v) rows) = length rows
   \<and> (field r key = None \<longrightarrow>
        field (safeRow r) key = 0
        \<and> fdiv (field (safeRow r) key) denom = 0
        \<and> fmul (weights key) (fdiv (field (safeRow r) key) denom) = 0)
   \<and> score_of q75 (safeRow r) =
       foldl (\<lambda>score key.
                fadd score (case field r key of
                              None \<Rightarrow> 0
                            | Some v \<Rightarrow> fmul (weights key) (fdiv v (or1 (q75 key)))))
         0 metricsKeys
   \<and> length (computeHeartbeat localeCompare rows) = length rows
   \<and> (r \<in> set rows \<longrightarrow>
        point_of (q75_of (map safeRow rows)) (safeRow r) \<in> set (computeHeartbeat localeCompare rows)
        \<and> intensity (point_of (q75_of (map safeRow rows)) (safeRow r)) =
            fdiv (fmul 100 (score_of (q75_of (map safeRow rows)) (safeRow r))) (fl (47 / 10)))"
proof -
  have 1: "computeHeartbeat localeCompare rows = computeHeartbeat localeCompare (map zero_filled rows)"
    by (simp add: computeHeartbeat_def comp_def safeRow_zero_filled Let_def)
  have "map (\<lambda>r. field r key) (map safeRow rows) =
        map (\<lambda>r. case field r key of None \<Rightarrow> 0 | Some v \<Rightarrow> v) rows"
    by (simp add: safeRow_def comp_def)
  then have 2: "q75_of (map safeRow rows) key =
       Some (or1 (Some (percentile75
         (map (\<lambda>r. case field r key of None \<Rightarrow> 0 | Some v \<Rightarrow> v) rows))))"
    by (simp only: q75_of_apply)
  have 3: "field r key = None \<longrightarrow>
        field (safeRow r) key = 0
        \<and> fdiv (field (safeRow r) key) denom = 0
        \<and> fmul (weights key) (fdiv (field (safeRow r) key) denom) = 0"
    by (simp add: safeRow_def fdiv_0 fmul_0_right)
  have 4: "length (map (\<lambda>r. case field r key of None \<Rightarrow> 0 | Some v \<Rightarrow> v) rows) = length rows"
    by simp
  have 5: "length (computeHeartbeat localeCompare rows) = length rows"
    by (simp add: computeHeartbeat_def Let_def sortedRows_def length_sort_by)
  have 6: "r \<in> set rows \<longrightarrow>
        point_of (q75_of (map safeRow rows)) (safeRow r) \<in> set (computeHeartbeat localeCompare rows)
        \<and> intensity (point_of (q75_of (map safeRow rows)) (safeRow r)) =
            fdiv (fmul 100 (score_of (q75_of (map safeRow rows)) (safeRow r))) (fl (47 / 10))"
  proof (intro impI conjI)
    assume "r \<in> set rows"
    then have "safeRow r \<in> set (sortedRows localeCompare (map safeRow rows))"
      by (simp add: sortedRows_def set_sort_by)
    then show "point_of (q75_of (map safeRow rows)) (safeRow r) \<in> set (computeHeartbeat localeCompare rows)"
      by (simp add: computeHeartbeat_def Let_def)
    show "intensity (point_of (q75_of (map safeRow rows)) (safeRow r)) =
            fdiv (fmul 100 (score_of (q75_of (map safeRow rows)) (safeRow r))) (fl (47 / 10))"
      by (simp only: point_of_def HeartbeatPoint.simps totalWeight_literal)
  qed
  from 1 2 4 3 score_of_safeRow 5 6 show ?thesis by (intro conjI)
qed

theorem absent_field_is_zero_witness:
  "field \<lparr>date = ''2025-01-01'', field = (\<lambda>key. None)(orders \<mapsto> (10 :: number))\<rparr> shipping_labels = None
   \<and> map (metrics (hd (computeHeartbeat codeUnitCompare
        [\<lparr>date = ''2025-01-01'', field = (\<lambda>key. None)(orders \<mapsto> 10)\<rparr>]))) metricsKeys
       = [10, 0, 0, 0, 0, 0, 0]
   \<and> score_of (q75_of (map safeRow [\<lparr>date = ''2025-01-01'', field = (\<lambda>key. None)(orders \<mapsto> 10)\<rparr>]))
        (safeRow \<lparr>date = ''2025-01-01'', field = (\<lambda>key. None)(orders \<mapsto> 10)\<rparr>) = 1
   \<and> map intensity (computeHeartbeat codeUnitCompare
        [\<lparr>date = ''2025-01-01'', field = (\<lambda>key. None)(orders \<mapsto> 10)\<rparr>])
       = [5988829291716085 / 281474976710656]"
proof -
  let ?r = "\<lparr>date = ''2025-01-01'', field = (\<lambda>key. None)(orders \<mapsto> (10 :: number))\<rparr>"
  let ?q = "q75_of [safeRow ?r]"
  note inst = absent_field_is_zero [of codeUnitCompare "[?r]" shipping_labels ?r 1 ?q, unfolded list.map]
  have out: "computeHeartbeat codeUnitCompare [?r] = [point_of ?q (safeRow ?r)]"
    by (simp add: computeHeartbeat_def sortedRows_def sort_by_def Let_def)
  have d_orders: "or1 (?q orders) = 10"
    by (simp add: q75_of_apply percentile75_single safeRow_def or1_def)
  have d_other: "key \<noteq> orders \<Longrightarrow> or1 (?q key) = 1" for key
    by (simp add: q75_of_apply percentile75_single safeRow_def or1_def)
  have "score_of ?q (safeRow ?r) =
     foldl (\<lambda>score key.
              fadd score (case field ?r key of
                            None \<Rightarrow> 0
                          | Some v \<Rightarrow> fmul (weights key) (fdiv v (or1 (?q key)))))
       0 metricsKeys"
    using inst by blast
  then have s: "score_of ?q (safeRow ?r) = 1"
    by (simp add: metricsKeys_def d_orders fdiv_self fmul_1_left fadd_0_left fadd_0_right fl_1)
  have "intensity (point_of ?q (safeRow ?r)) = fdiv (fmul 100 (score_of ?q (safeRow ?r))) (fl (47 / 10))"
    using inst by simp
  then have i: "intensity (point_of ?q (safeRow ?r)) = 5988829291716085 / 281474976710656"
    by (simp only: s intensity_1)
  have m: "map (metrics (point_of ?q (safeRow ?r))) metricsKeys = [10, 0, 0, 0, 0, 0, 0]"
    by (simp add: point_of_def safeRow_def metricsKeys_def)
  have a: "field ?r shipping_labels = None" by simp
  from a m s i show ?thesis
    unfolding list.map out by simp
qed

section \<open>A record at the denominators\<close>

text \<open>
  C4: a record of the input whose seven field values are the seven \<^verbatim>\<open>q75\<close> denominators
  is given intensity exactly 100, and its point is in the result.
\<close>

theorem intensity_at_q75:
  assumes "r \<in> set rows"
    and "\<forall>key. field r key = q75_of (map safeRow rows) key"
  shows "intensity (point_of (q75_of (map safeRow rows)) (safeRow r)) = 100
       \<and> point_of (q75_of (map safeRow rows)) (safeRow r) \<in> set (computeHeartbeat localeCompare rows)"
proof -
  let ?q = "q75_of (map safeRow rows)"
  have "field (safeRow r) key = or1 (?q key)" for key
  proof -
    have "field r key = Some (or1 (Some (percentile75 (map (\<lambda>r. field r key) (map safeRow rows)))))"
      using assms(2) by (simp only: q75_of_apply)
    then show ?thesis
      by (simp add: safeRow_def q75_of_apply or1_idem)
  qed
  then have "score_of ?q (safeRow r) = totalWeight"
    by (rule score_of_at_q75)
  then have 1: "intensity (point_of ?q (safeRow r)) = 100"
    by (simp add: point_of_def hundred)
  have "safeRow r \<in> set (sortedRows localeCompare (map safeRow rows))"
    using assms(1) by (simp add: sortedRows_def set_sort_by)
  then have 2: "point_of ?q (safeRow r) \<in> set (computeHeartbeat localeCompare rows)"
    by (simp add: computeHeartbeat_def Let_def)
  from 1 2 show ?thesis by (intro conjI)
qed

theorem intensity_at_q75_witness:
  "map intensity (computeHeartbeat codeUnitCompare
     [\<lparr>date = ''2025-11-21 00:00:00'', field = (\<lambda>key. Some 5)\<rparr>]) = [100]"
proof -
  let ?r = "\<lparr>date = ''2025-11-21 00:00:00'', field = (\<lambda>key. Some (5 :: number))\<rparr>"
  have mem: "?r \<in> set [?r]" by simp
  have eq: "\<forall>key. field ?r key = q75_of (map safeRow [?r]) key"
    by (simp add: q75_of_apply percentile75_single safeRow_def or1_def)
  have "computeHeartbeat codeUnitCompare [?r] = [point_of (q75_of (map safeRow [?r])) (safeRow ?r)]"
    by (simp add: computeHeartbeat_def sortedRows_def sort_by_def Let_def)
  then show ?thesis
    using intensity_at_q75 [OF mem eq, of codeUnitCompare] by simp
qed

section \<open>The example of two records\<close>

text \<open>
  C1: for the records \<open>2025-01-01\<close> with 10 orders and \<open>2025-01-02\<close> with 20 orders, all
  other fields 0, \<^verbatim>\<open>q75[orders]\<close> is 10 and every other denominator is 1; the result has
  two points, the first record's with intensity \<open>100 * 1.0 / 4.7\<close> and the second's with
  \<open>100 * 2.0 / 4.7\<close>, in binary64 arithmetic; these are 21.28 and 42.55 to two decimals.
\<close>

theorem two_record_example:
  "q75_of (map safeRow
      [\<lparr>date = ''2025-01-01'', field = (\<lambda>key. Some 0)(orders \<mapsto> 10)\<rparr>,
       \<lparr>date = ''2025-01-02'', field = (\<lambda>key. Some 0)(orders \<mapsto> 20)\<rparr>]) orders = Some 10
   \<and> map (q75_of (map safeRow
      [\<lparr>date = ''2025-01-01'', field = (\<lambda>key. Some 0)(orders \<mapsto> 10)\<rparr>,
       \<lparr>date = ''2025-01-02'', field = (\<lambda>key. Some 0)(orders \<mapsto> 20)\<rparr>])) metricsKeys
       = [Some 10, Some 1, Some 1, Some 1, Some 1, Some 1, Some 1]
   \<and> set (map (\<lambda>p. (timestamp p, intensity p)) (computeHeartbeat localeCompare
      [\<lparr>date = ''2025-01-01'', field = (\<lambda>key. Some 0)(orders \<mapsto> 10)\<rparr>,
       \<lparr>date = ''2025-01-02'', field = (\<lambda>key. Some 0)(orders \<mapsto> 20)\<rparr>]))
       = {(''2025-01-01Z'', fdiv (fmul 100 1) (fl (47 / 10))),
          (''2025-01-02Z'', fdiv (fmul 100 2) (fl (47 / 10)))}
   \<and> length (computeHeartbeat localeCompare
      [\<lparr>date = ''2025-01-01'', field = (\<lambda>key. Some 0)(orders \<mapsto> 10)\<rparr>,
       \<lparr>date = ''2025-01-02'', field = (\<lambda>key. Some 0)(orders \<mapsto> 20)\<rparr>]) = 2
   \<and> \<bar>fdiv (fmul 100 1) (fl (47 / 10)) - 2128 / 100\<bar> < 5 / 1000
   \<and> \<bar>fdiv (fmul 100 2) (fl (47 / 10)) - 4255 / 100\<bar> < 5 / 1000"
proof -
  let ?r1 = "\<lparr>date = ''2025-01-01'', field = (\<lambda>key. Some (0 :: number))(orders \<mapsto> 10)\<rparr>"
  let ?r2 = "\<lparr>date = ''2025-01-02'', field = (\<lambda>key. Some (0 :: number))(orders \<mapsto> 20)\<rparr>"
  let ?q = "q75_of [safeRow ?r1, safeRow ?r2]"
  have q_orders: "?q orders = Some 10"
    by (simp add: q75_of_apply safeRow_def percentile75_pair or1_def)
  have q_other: "key \<noteq> orders \<Longrightarrow> ?q key = Some 1" for key
    by (simp add: q75_of_apply safeRow_def percentile75_pair or1_def)
  have q_all: "map ?q metricsKeys = [Some 10, Some 1, Some 1, Some 1, Some 1, Some 1, Some 1]"
    by (simp add: metricsKeys_def q_orders q_other)
  have d_orders: "or1 (?q orders) = 10"
    by (simp only: q_orders) (simp add: or1_def)
  have d_other: "key \<noteq> orders \<Longrightarrow> or1 (?q key) = 1" for key
    using q_other [of key] by (simp add: or1_def)
  have f1: "field (safeRow ?r1) key = (if key = orders then 10 else 0)" for key
    by (simp add: safeRow_def)
  have f2: "field (safeRow ?r2) key = (if key = orders then 20 else 0)" for key
    by (simp add: safeRow_def)
  have s1: "score_of ?q (safeRow ?r1) = 1"
    unfolding score_of_def metricsKeys_def
    by (simp add: d_orders d_other f1 fdiv_self fdiv_0 fmul_0_right
        fadd_0_left fadd_0_right fmul_1_left fl_1 Let_def del: One_nat_def)
  have s2: "score_of ?q (safeRow ?r2) = 2"
    unfolding score_of_def metricsKeys_def
    by (simp add: d_orders d_other f2 fdiv_20_10 fdiv_0 fmul_0_right
        fadd_0_left fadd_0_right fmul_1_left fl_2 Let_def)
  have p1: "(timestamp (point_of ?q (safeRow ?r1)), intensity (point_of ?q (safeRow ?r1)))
        = (''2025-01-01Z'', fdiv (fmul 100 1) (fl (47 / 10)))"
    by (simp add: point_of_def s1 totalWeight_literal) (simp add: safeRow_def)
  have p2: "(timestamp (point_of ?q (safeRow ?r2)), intensity (point_of ?q (safeRow ?r2)))
        = (''2025-01-02Z'', fdiv (fmul 100 2) (fl (47 / 10)))"
    by (simp add: point_of_def s2 totalWeight_literal) (simp add: safeRow_def)
  have "set (map (\<lambda>p. (timestamp p, intensity p)) (computeHeartbeat localeCompare [?r1, ?r2]))
      = (\<lambda>r. (timestamp (point_of ?q r), intensity (point_of ?q r))) `
          set (sortedRows localeCompare [safeRow ?r1, safeRow ?r2])"
    by (simp add: computeHeartbeat_def Let_def image_image)
  also have "\<dots> = (\<lambda>r. (timestamp (point_of ?q r), intensity (point_of ?q r))) `
          {safeRow ?r1, safeRow ?r2}"
    by (simp add: sortedRows_def set_sort_by)
  also have "\<dots> = {(''2025-01-01Z'', fdiv (fmul 100 1) (fl (47 / 10))),
          (''2025-01-02Z'', fdiv (fmul 100 2) (fl (47 / 10)))}"
    by (simp only: image_insert image_empty p1 p2)
  finally have pts: "set (map (\<lambda>p. (timestamp p, intensity p)) (computeHeartbeat localeCompare [?r1, ?r2]))
      = {(''2025-01-01Z'', fdiv (fmul 100 1) (fl (47 / 10))),
          (''2025-01-02Z'', fdiv (fmul 100 2) (fl (47 / 10)))}" .
  have len: "length (computeHeartbeat localeCompare [?r1, ?r2]) = 2"
    by (simp add: computeHeartbeat_def Let_def sortedRows_def length_sort_by)
  have a1: "\<bar>fdiv (fmul 100 1) (fl (47 / 10)) - 2128 / 100\<bar> < 5 / 1000"
    unfolding intensity_1 by simp
  have a2: "\<bar>fdiv (fmul 100 2) (fl (47 / 10)) - 4255 / 100\<bar> < 5 / 1000"
    unfolding intensity_2 by simp
  from q_orders q_all pts len a1 a2 show ?thesis
    unfolding list.map by (intro conjI)
qed

section \<open>Purity\<close>

text \<open>
  C9: run on a store in which \<open>rows\<close> is an array of row objects, \<^verbatim>\<open>computeHeartbeat\<close>
  returns; every cell that existed before the call is unchanged after it, so the input
  array still holds the same rows (the copies and the in-place sort live in cells
  allocated by the call); and the points returned are a function of the rows alone,
  whatever the store and the addresses, so equal inputs give equal outputs.
\<close>

theorem computeHeartbeat_pure:
  assumes "rows_at h rows = Some rs"
  shows "\<exists>h'. computeHeartbeat_st localeCompare h rows = Some (h', computeHeartbeat localeCompare rs)
           \<and> take (length h) h' = h
           \<and> rows_at h' rows = Some rs"
proof -
  from assms obtain ps where arr: "arr_at h rows = Some ps"
    and rows: "map (row_at h) ps = map Some rs"
    by (auto simp: rows_at_def those_eq_Some_iff split: option.splits)
  let ?ss = "map safeRow rs"
  let ?n = "length h"
  let ?refs = "[?n ..< ?n + length rs]"
  let ?h0 = "h @ map SafeObj ?ss"
  let ?h1 = "?h0 @ [ArrObj ?refs]"
  let ?sa = "?n + length rs"
  let ?cmp = "\<lambda>x y. localeCompare (date (snd x)) (date (snd y))"
  let ?sorted = "sort_by ?cmp (zip ?refs ?ss)"
  let ?h2 = "?h1[?sa := ArrObj (map fst ?sorted)]"
  have copy: "copy_rows h ps = Some (?h0, ?refs)"
    using copy_rows_spec [OF rows] by (simp add: comp_def)
  have m: "map_safeRow h rows = Some (?h1, ?sa)"
    by (simp add: map_safeRow_def arr copy alloc_def)
  have arr1: "arr_at ?h1 ?sa = Some ?refs"
    by (simp add: arr_at_def at_index_def nth_append)
  have read1: "map (safe_at ?h1) ?refs = map Some ?ss"
    by (rule nth_equalityI) (simp_all add: safe_at_def at_index_def nth_append)
  have sr1: "safeRows_at ?h1 ?sa = Some ?ss"
    by (simp only: safeRows_at_def arr1 option.case those_map_Some read1)
  have sip: "sort_in_place localeCompare ?h1 ?sa = Some ?h2"
    by (simp only: sort_in_place_def arr1 option.case read1 those_map_Some)
  have arr2: "arr_at ?h2 ?sa = Some (map fst ?sorted)"
    by (simp add: arr_at_def at_index_def)
  have pair: "safe_at ?h2 (fst x) = Some (snd x)" if "x \<in> set (zip ?refs ?ss)" for x
  proof -
    from that obtain i where i: "i < length rs" and x: "x = (?n + i, ?ss ! i)"
      by (auto simp: set_zip)
    show ?thesis
      using i safe_at_fresh [of i ?ss h "ArrObj ?refs" "ArrObj (map fst ?sorted)"]
      by (simp add: x)
  qed
  have "map (safe_at ?h2 \<circ> fst) ?sorted = map (Some \<circ> snd) ?sorted"
  proof (rule map_cong [OF refl])
    fix x
    assume "x \<in> set ?sorted"
    then have "x \<in> set (zip ?refs ?ss)" by (simp only: set_sort_by)
    then show "(safe_at ?h2 \<circ> fst) x = (Some \<circ> snd) x"
      unfolding comp_def by (rule pair)
  qed
  then have "map (safe_at ?h2) (map fst ?sorted) = map Some (map snd ?sorted)"
    by (simp only: map_map)
  moreover have "map snd ?sorted = sort_by (\<lambda>a b. localeCompare (date a) (date b)) (map snd (zip ?refs ?ss))"
    by (rule sort_by_map)
  moreover have "map snd (zip ?refs ?ss) = ?ss" by simp
  ultimately have read2: "map (safe_at ?h2) (map fst ?sorted) = map Some (sortedRows localeCompare ?ss)"
    by (simp only: sortedRows_def)
  have sr2: "safeRows_at ?h2 ?sa = Some (sortedRows localeCompare ?ss)"
    by (simp only: safeRows_at_def arr2 option.case those_map_Some read2)
  have run: "computeHeartbeat_st localeCompare h rows = Some (?h2, computeHeartbeat localeCompare rs)"
    by (simp only: computeHeartbeat_st_def m option.case prod.case sr1 Let_def sip sr2 computeHeartbeat_def)
  have frame: "take ?n ?h2 = h" by simp
  have "rows < ?n" using arr by (auto simp: arr_at_def dest: at_index_Some_less split: option.splits)
  then have arr': "arr_at ?h2 rows = Some ps"
    using arr by (simp add: arr_at_def at_index_def nth_append)
  have rows2: "map (row_at ?h2) ps = map Some rs"
  proof -
    have "row_at ?h2 p = row_at h p" if "p \<in> set ps" for p
    proof -
      have "row_at h p \<in> set (map (row_at h) ps)" using that by simp
      then have "row_at h p \<in> set (map Some rs)" by (simp only: rows)
      then obtain r where "row_at h p = Some r" by auto
      then have "p < ?n" by (auto simp: row_at_def dest: at_index_Some_less split: option.splits)
      then show ?thesis by (simp add: row_at_def at_index_def nth_append)
    qed
    then have "map (row_at ?h2) ps = map (row_at h) ps" by (intro map_cong [OF refl])
    then show ?thesis by (simp only: rows)
  qed
  have keep: "rows_at ?h2 rows = Some rs"
    by (simp only: rows_at_def arr' option.case rows2 those_map_Some)
  show ?thesis
    by (rule exI [of _ ?h2]) (intro conjI run frame keep)
qed


theorem computeHeartbeat_pure_witness:
  "\<exists>h'. computeHeartbeat_st codeUnitCompare
           [RowObj \<lparr>date = ''2025-01-02'', field = (\<lambda>key. None)(orders \<mapsto> 20)\<rparr>,
            RowObj \<lparr>date = ''2025-01-01'', field = (\<lambda>key. None)\<rparr>,
            ArrObj [0, 1]] 2
         = Some (h', computeHeartbeat codeUnitCompare
                  [\<lparr>date = ''2025-01-02'', field = (\<lambda>key. None)(orders \<mapsto> 20)\<rparr>,
                   \<lparr>date = ''2025-01-01'', field = (\<lambda>key. None)\<rparr>])
       \<and> take 3 h' =
           [RowObj \<lparr>date = ''2025-01-02'', field = (\<lambda>key. None)(orders \<mapsto> 20)\<rparr>,
            RowObj \<lparr>date = ''2025-01-01'', field = (\<lambda>key. None)\<rparr>,
            ArrObj [0, 1]]
       \<and> rows_at h' 2 =
           Some [\<lparr>date = ''2025-01-02'', field = (\<lambda>key. None)(orders \<mapsto> 20)\<rparr>,
                 \<lparr>date = ''2025-01-01'', field = (\<lambda>key. None)\<rparr>]"
proof -
  have "rows_at
           [RowObj \<lparr>date = ''2025-01-02'', field = (\<lambda>key. None)(orders \<mapsto> 20)\<rparr>,
            RowObj \<lparr>date = ''2025-01-01'', field = (\<lambda>key. None)\<rparr>,
            ArrObj [0, 1]] 2
         = Some [\<lparr>date = ''2025-01-02'', field = (\<lambda>key. None)(orders \<mapsto> 20)\<rparr>,
                 \<lparr>date = ''2025-01-01'', field = (\<lambda>key. None)\<rparr>]"
    by (simp add: rows_at_def arr_at_def row_at_def at_index_def)
  from computeHeartbeat_pure [OF this, of codeUnitCompare] show ?thesis
    by (simp add: numeral_3_eq_3)
qed

section \<open>One row for each date\<close>

text \<open>
  C10: whatever the five tables hold, the rows that \<^verbatim>\<open>GET\<close> hands to
  \<^verbatim>\<open>computeHeartbeat\<close> have pairwise distinct date strings, and the response holds one
  point for each of these rows, derived from rows with pairwise distinct dates.
\<close>

theorem one_row_per_date:
  "distinct (map date (build_rows trim toNumber ordersCsv labelsCsv byCountryCsv packersCsv pickersCsv))
   \<and> GET localeCompare trim toNumber ordersCsv labelsCsv byCountryCsv packersCsv pickersCsv =
       map (point_of (q75_of (map safeRow
              (build_rows trim toNumber ordersCsv labelsCsv byCountryCsv packersCsv pickersCsv))))
         (sortedRows localeCompare (map safeRow
              (build_rows trim toNumber ordersCsv labelsCsv byCountryCsv packersCsv pickersCsv)))
   \<and> distinct (map date (sortedRows localeCompare (map safeRow
              (build_rows trim toNumber ordersCsv labelsCsv byCountryCsv packersCsv pickersCsv))))
   \<and> length (GET localeCompare trim toNumber ordersCsv labelsCsv byCountryCsv packersCsv pickersCsv) =
       length (build_rows trim toNumber ordersCsv labelsCsv byCountryCsv packersCsv pickersCsv)"
proof -
  let ?rows = "build_rows trim toNumber ordersCsv labelsCsv byCountryCsv packersCsv pickersCsv"
  have d: "distinct (map date ?rows)" by (rule build_rows_distinct)
  have g: "GET localeCompare trim toNumber ordersCsv labelsCsv byCountryCsv packersCsv pickersCsv =
      computeHeartbeat localeCompare ?rows"
    by (simp add: GET_def Let_def computeHeartbeat_Nil)
  have g': "computeHeartbeat localeCompare ?rows =
      map (point_of (q75_of (map safeRow ?rows))) (sortedRows localeCompare (map safeRow ?rows))"
    by (simp add: computeHeartbeat_def Let_def)
  have "map date (map safeRow ?rows) = map date ?rows"
    by (simp add: comp_def date_safeRow)
  then have s: "distinct (map date (sortedRows localeCompare (map safeRow ?rows)))"
    using d by (simp only: distinct_dates_sortedRows)
  have "length (sortedRows localeCompare (map safeRow ?rows)) = length ?rows"
    by (simp add: sortedRows_def length_sort_by)
  then have l: "length (GET localeCompare trim toNumber ordersCsv labelsCsv byCountryCsv packersCsv pickersCsv) =
       length ?rows"
    by (simp only: g g' length_map)
  from d g [unfolded g'] s l show ?thesis by (intro conjI)
qed

end
